theory Spec2Isabelle
  imports Complex_Main "HOL-Library.Log_Nat"
begin

section \<open>Python floating point, as far as the search pane uses it\<close>

text \<open>
  Python's \<^verbatim>\<open>float\<close> is IEEE-754 binary64. A finite float is a rational number, and
  every arithmetic operation returns the exact result rounded to the nearest
  representable number, ties going to the even significand. The model keeps the
  values as rationals and writes the rounding out:
  \<^item> \<open>round_half_even\<close> rounds a rational to an integer, ties to even;
  \<^item> \<open>float_exponent x\<close> is the binary exponent \<open>e\<close> with \<open>2^e \<le> x < 2^(e+1)\<close>
    of a positive \<open>x\<close>;
  \<^item> \<open>float_quantum x\<close> is the spacing of the floats around \<open>x\<close>: 53 significant
    bits for normal numbers, the fixed spacing \<open>2^-1074\<close> below \<open>2^-1022\<close>;
  \<^item> \<open>float_round\<close> rounds to the nearest multiple of the quantum.
  Overflow to infinity (results of magnitude \<open>2^1024\<close> and more) is not part of the
  model; the quantities rounded here are list lengths and ratios of them.
\<close>

definition round_half_even :: "rat \<Rightarrow> int" where
  "round_half_even x =
     (let f = \<lfloor>x\<rfloor>; d = x - of_int f
      in if d < 1 / 2 then f
         else if 1 / 2 < d then f + 1
         else if even f then f else f + 1)"

definition float_exponent :: "rat \<Rightarrow> int" where
  "float_exponent x =
     (if 1 \<le> x then bitlen \<lfloor>x\<rfloor> - 1 else - bitlen (\<lceil>1 / x\<rceil> - 1))"

definition float_quantum :: "rat \<Rightarrow> rat" where
  "float_quantum x = 2 powi (max (float_exponent x) (- 1022) - 52)"

definition float_round :: "rat \<Rightarrow> rat" where
  "float_round x =
     (if x = 0 then 0
      else if 0 < x then of_int (round_half_even (x / float_quantum x)) * float_quantum x
      else - (of_int (round_half_even (- x / float_quantum (- x))) * float_quantum (- x)))"

text \<open>\<^verbatim>\<open>float(n)\<close>, \<^verbatim>\<open>a / b\<close> and \<^verbatim>\<open>a * b\<close> on floats, and \<^verbatim>\<open>int(x)\<close>, which truncates
  towards zero.\<close>

definition float_of_int :: "int \<Rightarrow> rat" where
  "float_of_int n = float_round (of_int n)"

definition float_div :: "rat \<Rightarrow> rat \<Rightarrow> rat" where
  "float_div a b = float_round (a / b)"

definition float_mul :: "rat \<Rightarrow> rat \<Rightarrow> rat" where
  "float_mul a b = float_round (a * b)"

definition py_int :: "rat \<Rightarrow> int" where
  "py_int x = (if 0 \<le> x then \<lfloor>x\<rfloor> else \<lceil>x\<rceil>)"


section \<open>Configuration constants and the adaptive delay\<close>

definition FTS_HWDPHR_LIMIT :: int where
  "FTS_HWDPHR_LIMIT = 10000"

definition INCREMENTAL_LIMIT :: int where
  "INCREMENTAL_LIMIT = 500"

definition MAX_DELAY_UPDATE_INDEX :: int where
  "MAX_DELAY_UPDATE_INDEX = 100"

text \<open>
  \<^verbatim>\<open>
  def _incr_delay_func(count):
      x = max(0.3, min(1, float(count) / _INCREMENTAL_LIMIT))
      return int(_MAX_DELAY_UPDATE_INDEX * x)
  \<close>
  The literal \<^verbatim>\<open>0.3\<close> is the float nearest to \<open>3/10\<close>. Python's \<^verbatim>\<open>min\<close> and \<^verbatim>\<open>max\<close>
  return one of their arguments, so on values they are \<open>min\<close> and \<open>max\<close>; the integer
  \<open>1\<close> and the float \<open>1.0\<close> are the same rational, and \<open>100 * 1\<close> is exact either way.
\<close>

definition incr_delay_func :: "int \<Rightarrow> int" where
  "incr_delay_func count =
     (let x = max (float_round (3 / 10))
                  (min 1 (float_div (float_of_int count) (of_int INCREMENTAL_LIMIT)))
      in py_int (float_mul (of_int MAX_DELAY_UPDATE_INDEX) x))"


section \<open>Python strings\<close>

text \<open>
  A Python \<^verbatim>\<open>str\<close> is modelled as a \<open>string\<close> whose characters are the code points
  below 256. \<open>is_space\<close> is \<^verbatim>\<open>str.isspace\<close> on one such character, \<open>py_strip\<close> and
  \<open>py_split\<close> are \<^verbatim>\<open>strip()\<close> and \<^verbatim>\<open>split()\<close> without arguments (runs of whitespace
  separate the tokens, no empty token is returned), \<open>py_lower\<close> is \<^verbatim>\<open>lower()\<close> and
  \<open>startswith\<close> is \<^verbatim>\<open>str.startswith\<close>.
\<close>

definition is_space :: "char \<Rightarrow> bool" where
  "is_space c = ((of_char c :: nat) \<in> {9, 10, 11, 12, 13, 28, 29, 30, 31, 32, 133, 160})"

definition py_strip :: "string \<Rightarrow> string" where
  "py_strip s = rev (dropWhile is_space (rev (dropWhile is_space s)))"

fun py_split_from :: "string \<Rightarrow> string \<Rightarrow> string list" where
  "py_split_from cur [] = (if cur = [] then [] else [cur])"
| "py_split_from cur (c # cs) =
     (if is_space c then (if cur = [] then py_split_from [] cs else cur # py_split_from [] cs)
      else py_split_from (cur @ [c]) cs)"

definition py_split :: "string \<Rightarrow> string list" where
  "py_split s = py_split_from [] s"

definition lower_char :: "char \<Rightarrow> char" where
  "lower_char c =
     (let n = (of_char c :: nat)
      in if (65 \<le> n \<and> n \<le> 90) \<or> (192 \<le> n \<and> n \<le> 222 \<and> n \<noteq> 215)
         then char_of (n + 32) else c)"

definition py_lower :: "string \<Rightarrow> string" where
  "py_lower s = map lower_char s"

definition startswith :: "string \<Rightarrow> string \<Rightarrow> bool" where
  "startswith s p = (take (length p) s = p)"

text \<open>\<^verbatim>\<open>any(c in query for c in "*?")\<close>\<close>

definition contains_wild :: "string \<Rightarrow> bool" where
  "contains_wild query = list_ex (\<lambda>c. c \<in> set query) ''*?''"


section \<open>Result items and the similarity ratio\<close>

text \<open>
  A result item is a tuple \<^verbatim>\<open>(text, path, sortkey, prio)\<close>; the source reads it with
  \<^verbatim>\<open>text_getter = itemgetter(0)\<close>, \<^verbatim>\<open>path_getter = itemgetter(1)\<close>,
  \<^verbatim>\<open>sortkey_getter = itemgetter(2)\<close> and \<^verbatim>\<open>comparer = itemgetter(2, 3, 1)\<close>.
\<close>

record result_item =
  text_getter :: string
  path_getter :: string
  sortkey_getter :: string
  prio_getter :: int

definition comparer :: "result_item \<Rightarrow> string \<times> int \<times> string" where
  "comparer item = (sortkey_getter item, prio_getter item, path_getter item)"

text \<open>
  \<^verbatim>\<open>difflib.SequenceMatcher.quick_ratio\<close>: every element of \<open>a\<close> is matched against
  what is left of the element counts of \<open>b\<close> (\<^verbatim>\<open>fullbcount\<close>, with \<^verbatim>\<open>avail\<close> holding
  the counts already touched), and the ratio is \<^verbatim>\<open>2.0 * matches / length\<close>, or
  \<^verbatim>\<open>1.0\<close> when both sequences are empty.
\<close>

fun quick_matches :: "(char \<rightharpoonup> int) \<Rightarrow> (char \<Rightarrow> int) \<Rightarrow> string \<Rightarrow> int" where
  "quick_matches avail fullbcount [] = 0"
| "quick_matches avail fullbcount (elt # a) =
     (let numb = (case avail elt of Some n \<Rightarrow> n | None \<Rightarrow> fullbcount elt)
      in (if numb > 0 then 1 else 0) + quick_matches (avail(elt \<mapsto> numb - 1)) fullbcount a)"

definition calculate_ratio :: "int \<Rightarrow> int \<Rightarrow> rat" where
  "calculate_ratio matches len =
     (if len \<noteq> 0 then float_div (float_mul 2 (float_of_int matches)) (float_of_int len)
      else 1)"

definition quick_ratio :: "string \<Rightarrow> string \<Rightarrow> rat" where
  "quick_ratio a b =
     calculate_ratio (quick_matches Map.empty (\<lambda>c. int (count_list b c)) a)
       (int (length a) + int (length b))"


section \<open>The state of the search pane\<close>

text \<open>
  The four single-shot timers of the search pane, the request sent to the
  asynchronous full-text searcher, and the calls the handlers make on their
  collaborators, in the order they make them.
\<close>

datatype timer = TimerUpdateIndex | TimerAutoFTS | TimerSpellCorrection | TimerSearchingLabel

record fts_request =
  query_str1 :: string
  query_str2 :: "string option"
  itemtypes :: "string list"
  limit :: "int option"
  merge :: bool

datatype effect =
    TimerStart timer int
  | TimerStop timer
  | IncrementalSearch string int
  | FtsCancel
  | FtsUpdateQuery fts_request
  | WebViewSetHtml string
  | WebViewLoad string
  | ListSetFocus
  | ListSetCurrentRow int

text \<open>
  The exceptions a handler can raise: the built-in \<^verbatim>\<open>TypeError\<close> and \<^verbatim>\<open>IndexError\<close>
  of a subscript, and what the incremental index raises, which is an instance of
  \<^verbatim>\<open>EnvironmentError\<close> (the index files cannot be read), of
  \<^verbatim>\<open>incremental.IndexError\<close> (the files are not a valid index), or of a class that
  is neither, kept by its name. The clause
  \<^verbatim>\<open>except (EnvironmentError, incremental.IndexError)\<close> catches the first two of
  these and lets every other exception pass.
\<close>

datatype py_error =
    TypeError
  | IndexError
  | EnvironmentError
  | Incremental_IndexError
  | OtherError string

definition is_index_failure :: "py_error \<Rightarrow> bool" where
  "is_index_failure exc = (exc = EnvironmentError \<or> exc = Incremental_IndexError)"

text \<open>
  The collaborators the handlers reach through \<^verbatim>\<open>self\<close>: the incremental searcher
  behind the lazy property \<^verbatim>\<open>_incremental\<close> (constructing it may fail), whether the
  lazy property \<^verbatim>\<open>_fts_hwdphr_async\<close> yields a searcher, and
  \<^verbatim>\<open>utils.text.normalize_index_key\<close>.
\<close>

record env =
  incremental_Searcher :: "py_error + (string \<Rightarrow> int \<Rightarrow> py_error + result_item list)"
  fts_hwdphr_async :: bool
  normalize_index_key :: "string \<Rightarrow> string"

record state =
  incr_results :: "result_item list option"
  fts_results :: "result_item list option"
  found_items :: "result_item list option"
  selection_pending :: bool
  loading_pending :: bool
  auto_fts_phrase :: "string option"
  lineEditSearch_text :: string
  lineEditSearch_hasFocus :: bool
  listWidgetIndex_count :: nat
  listWidgetIndex_currentRow :: int
  webView_url :: string
  labelSearching_visible :: bool
  timers :: "timer \<Rightarrow> int option"
  trace :: "effect list"

text \<open>The fields as \<^verbatim>\<open>__init__\<close> leaves them, with an empty search box and list.\<close>

definition init_state :: state where
  "init_state =
     \<lparr>incr_results = None, fts_results = None, found_items = None,
      selection_pending = False, loading_pending = False, auto_fts_phrase = None,
      lineEditSearch_text = [], lineEditSearch_hasFocus = False,
      listWidgetIndex_count = 0, listWidgetIndex_currentRow = - 1,
      webView_url = [], labelSearching_visible = False,
      timers = (\<lambda>t. None), trace = []\<rparr>"

definition emit :: "effect \<Rightarrow> state \<Rightarrow> state" where
  "emit x s = s\<lparr>trace := trace s @ [x]\<rparr>"

text \<open>
  \<^verbatim>\<open>QTimer.start(msec)\<close> (re)starts the timer with the given interval,
  \<^verbatim>\<open>QTimer.stop()\<close> deactivates it, and a single-shot timer is inactive again when
  its slot runs.
\<close>

definition timer_start :: "timer \<Rightarrow> int \<Rightarrow> state \<Rightarrow> state" where
  "timer_start t msec s = emit (TimerStart t msec) (s\<lparr>timers := (timers s)(t := Some msec)\<rparr>)"

definition timer_stop :: "timer \<Rightarrow> state \<Rightarrow> state" where
  "timer_stop t s = emit (TimerStop t) (s\<lparr>timers := (timers s)(t := None)\<rparr>)"

definition timer_fired :: "timer \<Rightarrow> state \<Rightarrow> state" where
  "timer_fired t s = s\<lparr>timers := (timers s)(t := None)\<rparr>"

text \<open>
  The list widget: \<^verbatim>\<open>clear()\<close> removes all rows and the current row,
  \<^verbatim>\<open>addItems\<close> appends rows, \<^verbatim>\<open>setCurrentRow(row)\<close> makes \<open>row\<close> current when it is a
  row of the list and leaves no current row (\<open>-1\<close>) otherwise, and \<^verbatim>\<open>setFocus()\<close>
  takes the keyboard focus away from the search box. Scrolling is not modelled.
\<close>

definition lw_clear :: "state \<Rightarrow> state" where
  "lw_clear s = s\<lparr>listWidgetIndex_count := 0, listWidgetIndex_currentRow := - 1\<rparr>"

definition lw_addItems :: "nat \<Rightarrow> state \<Rightarrow> state" where
  "lw_addItems n s = s\<lparr>listWidgetIndex_count := listWidgetIndex_count s + n\<rparr>"

definition lw_setCurrentRow :: "int \<Rightarrow> state \<Rightarrow> state" where
  "lw_setCurrentRow row s =
     emit (ListSetCurrentRow row)
       (s\<lparr>listWidgetIndex_currentRow :=
            (if 0 \<le> row \<and> row < int (listWidgetIndex_count s) then row else - 1)\<rparr>)"

definition lw_setFocus :: "state \<Rightarrow> state" where
  "lw_setFocus s = emit ListSetFocus (s\<lparr>lineEditSearch_hasFocus := False\<rparr>)"

text \<open>
  \<^verbatim>\<open>self._found_items[row]\<close>: subscripting \<^verbatim>\<open>None\<close> raises \<^verbatim>\<open>TypeError\<close>, a negative
  index counts from the end, and an index outside the tuple raises \<^verbatim>\<open>IndexError\<close>.
\<close>

definition found_items_getitem :: "result_item list option \<Rightarrow> int \<Rightarrow> py_error + result_item" where
  "found_items_getitem items i =
     (case items of
        None \<Rightarrow> Inl TypeError
      | Some found \<Rightarrow>
          if 0 \<le> i \<and> i < int (length found) then Inr (found ! nat i)
          else if i < 0 \<and> - int (length found) \<le> i then Inr (found ! nat (int (length found) + i))
          else Inl IndexError)"

text \<open>
  \<^verbatim>\<open>for row ...: if cond: ...; break\<close>: the first row, counted from \<open>row\<close>, whose item
  satisfies the condition.
\<close>

fun find_row :: "(result_item \<Rightarrow> bool) \<Rightarrow> result_item list \<Rightarrow> int \<Rightarrow> int option" where
  "find_row cond [] row = None"
| "find_row cond (item # items) row =
     (if cond item then Some row else find_row cond items (row + 1))"


section \<open>Selecting and loading an item\<close>

text \<open>
  The second loop of \<^verbatim>\<open>selectItemRelative\<close>:
  \<^verbatim>\<open>
  row = -1
  max_ratio = 0
  for (r, sortkey) in enumerate(sortkeys):
      sm.set_seq2(sortkey)
      ratio = sm.quick_ratio()
      if ratio > max_ratio:
          max_ratio = ratio
          row = r
  \<close>
\<close>

fun most_similar :: "string \<Rightarrow> result_item list \<Rightarrow> int \<Rightarrow> rat \<Rightarrow> int \<Rightarrow> int" where
  "most_similar text [] r max_ratio row = row"
| "most_similar text (item # items) r max_ratio row =
     (let ratio = quick_ratio text (sortkey_getter item)
      in if ratio > max_ratio then most_similar text items (r + 1) ratio r
         else most_similar text items (r + 1) max_ratio row)"

definition selectItemRelative :: "env \<Rightarrow> int \<Rightarrow> state \<Rightarrow> state" where
  "selectItemRelative e rel s =
     (case found_items s of
        None \<Rightarrow> s\<lparr>selection_pending := True\<rparr>
      | Some [] \<Rightarrow> s\<lparr>selection_pending := True\<rparr>
      | Some found \<Rightarrow>
          (let row_prev = listWidgetIndex_currentRow s
           in if row_prev = - 1 \<or> lineEditSearch_hasFocus s then
                (let text = py_lower (normalize_index_key e (lineEditSearch_text s))
                 in case find_row (\<lambda>item. startswith (py_lower (sortkey_getter item)) text) found 0 of
                      Some row \<Rightarrow> lw_setCurrentRow row (lw_setFocus s)
                    | None \<Rightarrow> lw_setCurrentRow (most_similar text found 0 0 (- 1)) (lw_setFocus s))
              else
                (let row = max 0 (min (int (length found) - 1) (row_prev + rel))
                 in if row \<noteq> row_prev then lw_setCurrentRow row (lw_setFocus s) else s)))"

text \<open>
  \<^verbatim>\<open>_loadItem(row=None)\<close>. The web view's URL is kept as the string
  \<^verbatim>\<open>webView.url().toString()\<close>, and two URLs are compared as strings. Loading a
  page is a call on the web view; its URL changes when the web view reports it,
  not in this handler.
\<close>

definition loadItem :: "int option \<Rightarrow> state \<Rightarrow> state" where
  "loadItem row_arg s =
     (case found_items s of
        None \<Rightarrow> s\<lparr>loading_pending := True\<rparr>
      | Some [] \<Rightarrow> s\<lparr>loading_pending := True\<rparr>
      | Some found \<Rightarrow>
          (let row = (case row_arg of None \<Rightarrow> listWidgetIndex_currentRow s | Some r \<Rightarrow> r)
           in if 0 \<le> row \<and> row < int (length found) then
                (let path = path_getter (found ! nat row); url = ''dict://'' @ path
                 in if url \<noteq> webView_url s then emit (WebViewLoad url) s else s)
              else s))"


section \<open>Updating the item list\<close>

text \<open>
  \<^verbatim>\<open>_updateIndex\<close> in the order of the source. First the spell-correction timer
  (lines 294 to 305):
  \<^verbatim>\<open>
  query = self._ui.lineEditSearch.text().strip()
  if (incr_res is not None and full_res is not None
          and len(incr_res) == 0 and len(full_res) == 0
          and len(query.split()) == 1):
      self._timerSpellCorrection.start(200)
  \<close>
\<close>

definition spell_correction_due :: "state \<Rightarrow> bool" where
  "spell_correction_due s =
     (let query = py_strip (lineEditSearch_text s)
      in case incr_results s of
           None \<Rightarrow> False
         | Some incr_res \<Rightarrow>
             (case fts_results s of
                None \<Rightarrow> False
              | Some full_res \<Rightarrow>
                  length incr_res = 0 \<and> length full_res = 0 \<and> length (py_split query) = 1))"

definition start_spell_correction :: "state \<Rightarrow> state" where
  "start_spell_correction s =
     (if spell_correction_due s then timer_start TimerSpellCorrection 200 s else s)"

text \<open>The previous selection (lines 307 to 311).\<close>

definition escape_selection :: "state \<Rightarrow> py_error + result_item option" where
  "escape_selection s =
     (let row_prev = listWidgetIndex_currentRow s
      in if row_prev \<noteq> - 1 then
           (case found_items_getitem (found_items s) row_prev of
              Inl err \<Rightarrow> Inl err
            | Inr item \<Rightarrow> Inr (Some item))
         else Inr None)"

text \<open>
  The merge (lines 313 to 324); a result is true in \<^verbatim>\<open>if incr_res and full_res\<close> when
  it is neither \<^verbatim>\<open>None\<close> nor empty.
  \<^verbatim>\<open>
  if incr_res and full_res:
      closed = set(map(path_getter, incr_res))
      self._found_items = incr_res + tuple(
          item for item in full_res if path_getter(item) not in closed)
  elif incr_res:
      self._found_items = tuple(incr_res)
  elif full_res:
      self._found_items = tuple(full_res)
  else:
      self._found_items = tuple()
  \<close>
\<close>

fun merge_found_items ::
  "result_item list option \<Rightarrow> result_item list option \<Rightarrow> result_item list" where
  "merge_found_items (Some (i # incr)) (Some (f # full)) =
     (let incr_res = i # incr; full_res = f # full;
          closed = set (map path_getter incr_res)
      in incr_res @ filter (\<lambda>item. path_getter item \<notin> closed) full_res)"
| "merge_found_items (Some (i # incr)) full_res = i # incr"
| "merge_found_items incr_res (Some (f # full)) = f # full"
| "merge_found_items incr_res full_res = []"

text \<open>The new list (lines 313 to 334): the merged items, and one row for each.\<close>

definition update_found_items :: "state \<Rightarrow> state" where
  "update_found_items s =
     (let found = merge_found_items (incr_results s) (fts_results s)
      in lw_addItems (length found) (lw_clear (s\<lparr>found_items := Some found\<rparr>)))"

text \<open>
  The rest of \<^verbatim>\<open>_updateIndex\<close> reads the tuple just assigned to
  \<^verbatim>\<open>self._found_items\<close>.
\<close>

definition found_list :: "state \<Rightarrow> result_item list" where
  "found_list s = (case found_items s of None \<Rightarrow> [] | Some found \<Rightarrow> found)"

text \<open>
  Restoring the previous selection (lines 336 to 343); an item is a tuple of four
  fields and so is true in \<^verbatim>\<open>if selected_prev\<close>.
\<close>

definition restore_selection :: "result_item option \<Rightarrow> state \<Rightarrow> state" where
  "restore_selection selected_prev s =
     (case selected_prev of
        None \<Rightarrow> s
      | Some prev \<Rightarrow>
          (let current = comparer prev
           in case find_row (\<lambda>item. comparer item = current) (found_list s) 0 of
                Some row \<Rightarrow> lw_setCurrentRow row s
              | None \<Rightarrow> s))"

text \<open>The row of the page shown in the web view (lines 345 to 356).\<close>

definition select_current_url :: "state \<Rightarrow> state" where
  "select_current_url s =
     (let url = webView_url s;
          sel_row = (case find_row (\<lambda>item. ''dict:'' @ path_getter item = url)
                            (found_list s) 0 of
                       Some row \<Rightarrow> row | None \<Rightarrow> - 1)
      in if sel_row \<ge> 0 then lw_setCurrentRow sel_row s else s)"

text \<open>The deferred selection and load (lines 358 to 364).\<close>

definition run_pending :: "env \<Rightarrow> state \<Rightarrow> state" where
  "run_pending e s =
     (let s1 = (if selection_pending s
                then selectItemRelative e 0 (s\<lparr>selection_pending := False\<rparr>) else s)
      in if loading_pending s1 then loadItem None (s1\<lparr>loading_pending := False\<rparr>) else s1)"

definition updateIndex :: "env \<Rightarrow> state \<Rightarrow> py_error + state" where
  "updateIndex e s =
     (let s1 = start_spell_correction s
      in case escape_selection s1 of
           Inl err \<Rightarrow> Inl err
         | Inr selected_prev \<Rightarrow>
             Inr (run_pending e
                   (select_current_url
                     (restore_selection selected_prev (update_found_items s1)))))"


section \<open>Searching\<close>

text \<open>
  The lazy property \<^verbatim>\<open>_incremental\<close> yields the searcher, or \<^verbatim>\<open>None\<close> when
  constructing it raises one of the two exceptions the property catches; any other
  exception of the constructor leaves the property:
  \<^verbatim>\<open>
  try:
      obj = self._lazy[_LAZY_INCREMENTAL] = incremental.Searcher(
          get_config().incremental_path)
  except (EnvironmentError, incremental.IndexError):
      pass
  return obj
  \<close>
\<close>

definition incremental ::
  "env \<Rightarrow> py_error + (string \<Rightarrow> int \<Rightarrow> py_error + result_item list) option" where
  "incremental e =
     (case incremental_Searcher e of
        Inl exc \<Rightarrow> if is_index_failure exc then Inr None else Inl exc
      | Inr obj \<Rightarrow> Inr (Some obj))"

text \<open>
  \<^verbatim>\<open>_incremental_search\<close> wraps the lookup (a searcher object is true in
  \<^verbatim>\<open>if not self._incremental\<close>). It has one \<^verbatim>\<open>except\<close> clause, for the same two
  classes; an exception of another class, raised by the property or by the lookup,
  goes on to the caller:
  \<^verbatim>\<open>
  def _incremental_search(self, key):
      if not self._incremental:
          return None
      else:
          try:
              return self._incremental.search(key, limit=_INCREMENTAL_LIMIT)
          except (EnvironmentError, incremental.IndexError):
              return None
  \<close>
\<close>

definition incremental_search ::
  "env \<Rightarrow> string \<Rightarrow> state \<Rightarrow> py_error + result_item list option \<times> state" where
  "incremental_search e key s =
     (case incremental e of
        Inl exc \<Rightarrow> Inl exc
      | Inr None \<Rightarrow> Inr (None, s)
      | Inr (Some searcher) \<Rightarrow>
          (case searcher key INCREMENTAL_LIMIT of
             Inl exc \<Rightarrow>
               if is_index_failure exc
               then Inr (None, emit (IncrementalSearch key INCREMENTAL_LIMIT) s)
               else Inl exc
           | Inr results \<Rightarrow> Inr (Some results, emit (IncrementalSearch key INCREMENTAL_LIMIT) s)))"

definition index_advisory :: string where
  "index_advisory =
     ''<p>The incremental search index has not been created yet or broken.</p>''"

text \<open>
  \<^verbatim>\<open>_instantSearch(pending=False, delay=True)\<close>. It has no \<^verbatim>\<open>try\<close> of its own, so
  an exception that leaves \<^verbatim>\<open>_incremental_search\<close> leaves it too. It starts by dropping what is
  left of the previous search (lines 434 to 447): the pending flags are set from
  the argument, the searching label and its timer are stopped, a running full-text
  search is cancelled, the three other timers are stopped and both results are
  cleared.
\<close>

definition reset_search :: "env \<Rightarrow> bool \<Rightarrow> state \<Rightarrow> state" where
  "reset_search e pending s =
     (let s1 = s\<lparr>selection_pending := pending, loading_pending := pending\<rparr>;
          s2 = (timer_stop TimerSearchingLabel s1)\<lparr>labelSearching_visible := False\<rparr>;
          s3 = (if fts_hwdphr_async e then emit FtsCancel s2 else s2);
          s4 = timer_stop TimerSpellCorrection
                 (timer_stop TimerAutoFTS (timer_stop TimerUpdateIndex s3))
      in s4\<lparr>incr_results := None, fts_results := None\<rparr>)"

text \<open>
  Then the search itself (lines 449 to 470):
  \<^verbatim>\<open>
  if query:
      contains_wild = any(c in query for c in "*?")
      if not contains_wild:
          results = self._incremental_search(query)
      else:
          results = []
      if results is not None:
          self._incr_results = tuple(results)
          self._auto_fts_phrase = query
          self._timerAutoFTS.start(0)
          self._timerUpdateIndex.start(
              _incr_delay_func(len(results)) if delay else 0)
      else:
          self._ui.webView.setHtml(...)
          self._timerUpdateIndex.start(0)
  else:
      self._timerUpdateIndex.start(0)
  \<close>
\<close>

definition instantSearch :: "env \<Rightarrow> bool \<Rightarrow> bool \<Rightarrow> state \<Rightarrow> py_error + state" where
  "instantSearch e pending delay s =
     (let query = lineEditSearch_text s;
          s5 = reset_search e pending s
      in if query \<noteq> [] then
           (case (if \<not> contains_wild query then incremental_search e query s5
                  else Inr (Some [], s5)) of
              Inl exc \<Rightarrow> Inl exc
            | Inr (Some rs, s6) \<Rightarrow>
                Inr (timer_start TimerUpdateIndex
                       (if delay then incr_delay_func (int (length rs)) else 0)
                       (timer_start TimerAutoFTS 0
                         (s6\<lparr>incr_results := Some rs, auto_fts_phrase := Some query\<rparr>)))
            | Inr (None, s6) \<Rightarrow>
                Inr (timer_start TimerUpdateIndex 0 (emit (WebViewSetHtml index_advisory) s6)))
         else Inr (timer_start TimerUpdateIndex 0 s5))"

text \<open>
  \<^verbatim>\<open>_onTimerAutoFullSearchTimeout\<close>; \<^verbatim>\<open>c in query\<close> raises \<^verbatim>\<open>TypeError\<close> when no
  phrase has been set. The call passes no \<^verbatim>\<open>query_str2\<close>, which the request
  records as \<^verbatim>\<open>None\<close>.
\<close>

definition onTimerAutoFullSearchTimeout :: "env \<Rightarrow> state \<Rightarrow> py_error + state" where
  "onTimerAutoFullSearchTimeout e s =
     (if fts_hwdphr_async e then
        (case auto_fts_phrase s of
           None \<Rightarrow> Inl TypeError
         | Some query \<Rightarrow>
             (let types = (if list_ex (\<lambda>c. c \<in> set query) ''?*'' then [''hm''] else [])
              in Inr (emit (FtsUpdateQuery
                             \<lparr>query_str1 = query, query_str2 = None, itemtypes = types,
                              limit = Some (FTS_HWDPHR_LIMIT + 1), merge = True\<rparr>)
                       (timer_start TimerSearchingLabel 200 s))))
      else Inr s)"

text \<open>
  \<^verbatim>\<open>_onAsyncFTSearchFinished\<close>; the argument is what \<^verbatim>\<open>take_result()\<close> returns:
  \<^verbatim>\<open>None\<close> for a superseded search, the pair \<^verbatim>\<open>(merge, result)\<close> otherwise.
\<close>

definition onAsyncFTSearchFinished :: "(bool \<times> result_item list) option \<Rightarrow> state \<Rightarrow> state" where
  "onAsyncFTSearchFinished r s =
     (let s1 = (timer_stop TimerSearchingLabel s)\<lparr>labelSearching_visible := False\<rparr>
      in case r of
           None \<Rightarrow> s1
         | Some (mrg, result) \<Rightarrow>
             (let s2 = (if \<not> mrg then s1\<lparr>incr_results := None\<rparr> else s1)
              in timer_start TimerUpdateIndex 0 (s2\<lparr>fts_results := Some result\<rparr>)))"


text \<open>The effects on the timers, for reading them off a trace.\<close>

definition is_timer_effect :: "effect \<Rightarrow> bool" where
  "is_timer_effect x = (case x of TimerStart t msec \<Rightarrow> True | TimerStop t \<Rightarrow> True | _ \<Rightarrow> False)"


section \<open>Rounding is monotone\<close>

lemma round_half_even_floor_le: "\<lfloor>x\<rfloor> \<le> round_half_even x"
  by (simp add: round_half_even_def Let_def)

lemma round_half_even_le_floor_Suc: "round_half_even x \<le> \<lfloor>x\<rfloor> + 1"
  by (simp add: round_half_even_def Let_def)

lemma round_half_even_ge_int: "of_int n \<le> x \<Longrightarrow> n \<le> round_half_even x"
proof -
  assume "of_int n \<le> x"
  then have "n \<le> \<lfloor>x\<rfloor>" by (simp add: le_floor_iff)
  with round_half_even_floor_le [of x] show ?thesis by linarith
qed

lemma round_half_even_le_int: "x \<le> of_int n \<Longrightarrow> round_half_even x \<le> n"
proof (cases "x = of_int n")
  case True
  then show ?thesis by (simp add: round_half_even_def)
next
  case False
  assume "x \<le> of_int n"
  with False have "x < of_int n" by simp
  then have "\<lfloor>x\<rfloor> < n" by (simp add: floor_less_iff)
  with round_half_even_le_floor_Suc [of x] show ?thesis by linarith
qed

lemma round_half_even_mono: "x \<le> y \<Longrightarrow> round_half_even x \<le> round_half_even y"
proof -
  assume xy: "x \<le> y"
  then have fl: "\<lfloor>x\<rfloor> \<le> \<lfloor>y\<rfloor>" by (rule floor_mono)
  show ?thesis
  proof (cases "\<lfloor>x\<rfloor> = \<lfloor>y\<rfloor>")
    case True
    with xy show ?thesis by (auto simp add: round_half_even_def Let_def)
  next
    case False
    with fl have "\<lfloor>x\<rfloor> + 1 \<le> \<lfloor>y\<rfloor>" by simp
    with round_half_even_le_floor_Suc [of x] round_half_even_floor_le [of y]
    show ?thesis by linarith
  qed
qed

lemma float_exponent_ge1:
  assumes "1 \<le> x"
  shows "2 powi (float_exponent x) \<le> x \<and> x < 2 powi (float_exponent x + 1)"
proof -
  let ?n = "\<lfloor>x\<rfloor>"
  let ?b = "bitlen ?n"
  from assms have n: "0 < ?n" by simp
  from bitlen_bounds [OF n] have lo: "2 ^ nat (?b - 1) \<le> ?n" and hi: "?n < 2 ^ nat ?b"
    by simp_all
  from n have b: "1 \<le> ?b" by (simp add: bitlen_ge_iff_power)
  have il: "float_exponent x = ?b - 1" using assms by (simp add: float_exponent_def)
  have "(2::rat) powi (?b - 1) = of_int (2 ^ nat (?b - 1))"
    using b by (simp add: power_int_nonneg_exp)
  also have "\<dots> \<le> of_int ?n" using lo by (simp only: of_int_le_iff)
  also have "\<dots> \<le> x" by simp
  finally have A: "2 powi (float_exponent x) \<le> x" by (simp add: il)
  from hi have "?n + 1 \<le> 2 ^ nat ?b" by simp
  then have "(of_int (?n + 1) :: rat) \<le> of_int (2 ^ nat ?b)" by (simp only: of_int_le_iff)
  moreover have "x < of_int (?n + 1)" by simp linarith
  ultimately have "x < of_int (2 ^ nat ?b)" by linarith
  also have "\<dots> = 2 powi ?b" using b by (simp add: power_int_nonneg_exp)
  finally have B: "x < 2 powi (float_exponent x + 1)" by (simp add: il)
  from A B show ?thesis ..
qed

lemma float_exponent_lt1:
  assumes "0 < x" "x < 1"
  shows "2 powi (float_exponent x) \<le> x \<and> x < 2 powi (float_exponent x + 1)"
proof -
  let ?y = "1 / x"
  let ?n = "\<lceil>?y\<rceil> - 1"
  let ?b = "bitlen ?n"
  from assms have y: "1 < ?y" by simp
  then have "1 < \<lceil>?y\<rceil>" by (simp add: less_ceiling_iff)
  then have n: "0 < ?n" by simp
  from bitlen_bounds [OF n] have lo: "2 ^ nat (?b - 1) \<le> ?n" and hi: "?n < 2 ^ nat ?b"
    by simp_all
  from n have b: "1 \<le> ?b" by (simp add: bitlen_ge_iff_power)
  have il: "float_exponent x = - ?b" using assms by (simp add: float_exponent_def)
  have ny: "of_int ?n < ?y" by linarith
  have yn: "?y \<le> of_int (?n + 1)" by simp
  from hi have "?n + 1 \<le> 2 ^ nat ?b" by simp
  then have "(of_int (?n + 1) :: rat) \<le> of_int (2 ^ nat ?b)" by (simp only: of_int_le_iff)
  with yn have "?y \<le> of_int (2 ^ nat ?b)" by linarith
  also have "\<dots> = 2 powi ?b" using b by (simp add: power_int_nonneg_exp)
  finally have "1 / x \<le> 2 powi ?b" .
  with assms have "1 \<le> x * 2 powi ?b" by (simp add: field_simps)
  then have A: "2 powi (float_exponent x) \<le> x"
    by (simp add: il power_int_minus field_simps)
  have "(2::rat) powi (?b - 1) = of_int (2 ^ nat (?b - 1))"
    using b by (simp add: power_int_nonneg_exp)
  also have "\<dots> \<le> of_int ?n" using lo by (simp only: of_int_le_iff)
  also have "\<dots> < ?y" by (rule ny)
  finally have "2 powi (?b - 1) < 1 / x" .
  with assms have "x < 1 / 2 powi (?b - 1)" by (simp add: field_simps)
  moreover have "(2::rat) powi (- ?b + 1) = 1 / 2 powi (?b - 1)"
    using power_int_minus_divide [of "2::rat" "?b - 1"] by simp
  ultimately have B: "x < 2 powi (float_exponent x + 1)"
    by (simp only: il)
  from A B show ?thesis ..
qed

lemma float_exponent_bounds:
  assumes "0 < x"
  shows "2 powi (float_exponent x) \<le> x" and "x < 2 powi (float_exponent x + 1)"
  using assms float_exponent_ge1 [of x] float_exponent_lt1 [of x]
  by (cases "1 \<le> x"; simp)+

lemma float_exponent_mono:
  assumes "0 < x" "x \<le> y"
  shows "float_exponent x \<le> float_exponent y"
proof (rule ccontr)
  assume "\<not> float_exponent x \<le> float_exponent y"
  then have "float_exponent y + 1 \<le> float_exponent x" by simp
  then have "(2::rat) powi (float_exponent y + 1) \<le> 2 powi (float_exponent x)"
    by (intro power_int_increasing) simp_all
  moreover from assms have "0 < y" by simp
  ultimately show False
    using float_exponent_bounds(1) [of x] float_exponent_bounds(2) [of y] assms
    by linarith
qed

lemma float_quantum_pos: "0 < float_quantum x"
  by (simp add: float_quantum_def)

lemma float_round_pos_mono:
  assumes "0 < x" "x \<le> y"
  shows "float_round x \<le> float_round y"
proof -
  from assms have y: "0 < y" by simp
  let ?ex = "max (float_exponent x) (- 1022) - 52"
  let ?ey = "max (float_exponent y) (- 1022) - 52"
  have fx: "float_round x = of_int (round_half_even (x / 2 powi ?ex)) * 2 powi ?ex"
    using assms by (simp add: float_round_def float_quantum_def)
  have fy: "float_round y = of_int (round_half_even (y / 2 powi ?ey)) * 2 powi ?ey"
    using y by (simp add: float_round_def float_quantum_def)
  have mono: "float_exponent x \<le> float_exponent y" using assms by (rule float_exponent_mono)
  then have le: "?ex \<le> ?ey" by simp
  show ?thesis
  proof (cases "?ex = ?ey")
    case True
    have "x / 2 powi ?ey \<le> y / 2 powi ?ey"
      using assms by (simp add: divide_right_mono)
    then have "round_half_even (x / 2 powi ?ey) \<le> round_half_even (y / 2 powi ?ey)"
      by (rule round_half_even_mono)
    then have "(of_int (round_half_even (x / 2 powi ?ey)) :: rat)
        \<le> of_int (round_half_even (y / 2 powi ?ey))"
      by (simp only: of_int_le_iff)
    then show ?thesis unfolding fx fy True
      by (intro mult_right_mono) simp_all
  next
    case False
    with le have lt: "?ex < ?ey" by linarith
    define E where "E = float_exponent y"
    from lt mono have Ey: "?ey = E - 52" and Ex: "float_exponent x < E"
      and exE: "?ex < E - 52"
      unfolding E_def by linarith+
    have "x < 2 powi (float_exponent x + 1)" using assms by (intro float_exponent_bounds)
    also have "\<dots> \<le> 2 powi E" using Ex by (intro power_int_increasing) simp_all
    finally have xE: "x \<le> 2 powi E" by simp
    have pE: "(2::rat) powi E = 2 powi (E - ?ex) * 2 powi ?ex"
      using power_int_add [of "2::rat" "E - ?ex" "?ex"] by simp
    have nn: "0 \<le> E - ?ex" using exE by linarith
    have "x / 2 powi ?ex \<le> 2 powi (E - ?ex)"
      using xE by (simp add: pE field_simps)
    also have "\<dots> = of_int (2 ^ nat (E - ?ex))"
      using nn by (simp add: power_int_nonneg_exp)
    finally have "round_half_even (x / 2 powi ?ex) \<le> 2 ^ nat (E - ?ex)"
      by (rule round_half_even_le_int)
    then have "(of_int (round_half_even (x / 2 powi ?ex)) :: rat) \<le> of_int (2 ^ nat (E - ?ex))"
      by (simp only: of_int_le_iff)
    also have "\<dots> = 2 powi (E - ?ex)" using nn by (simp add: power_int_nonneg_exp)
    finally have "float_round x \<le> 2 powi (E - ?ex) * 2 powi ?ex"
      unfolding fx by (intro mult_right_mono) simp_all
    then have A: "float_round x \<le> 2 powi E" by (simp only: pE)
    have yE: "2 powi E \<le> y" unfolding E_def using y by (intro float_exponent_bounds)
    have pE2: "(2::rat) powi E = 2 powi 52 * 2 powi (E - 52)"
      using power_int_add [of "2::rat" "52" "E - 52"] by simp
    have "(of_int (2 ^ 52) :: rat) = 2 powi 52" by simp
    also have "\<dots> \<le> y / 2 powi (E - 52)"
      using yE by (simp add: pE2 field_simps)
    finally have "2 ^ 52 \<le> round_half_even (y / 2 powi (E - 52))"
      by (rule round_half_even_ge_int)
    then have "(of_int (2 ^ 52) :: rat) \<le> of_int (round_half_even (y / 2 powi (E - 52)))"
      by (simp only: of_int_le_iff)
    then have "of_int (2 ^ 52) * 2 powi (E - 52) \<le> float_round y"
      unfolding fy Ey by (intro mult_right_mono) simp_all
    then have B: "2 powi E \<le> float_round y" by (simp add: pE2)
    from A B show ?thesis by simp
  qed
qed

lemma float_round_nonneg: "0 \<le> x \<Longrightarrow> 0 \<le> float_round x"
proof -
  assume "0 \<le> x"
  show ?thesis
  proof (cases "x = 0")
    case True
    then show ?thesis by (simp add: float_round_def)
  next
    case False
    with \<open>0 \<le> x\<close> have x: "0 < x" by simp
    then have "0 \<le> x / float_quantum x" using float_quantum_pos [of x] by simp
    then have "0 \<le> round_half_even (x / float_quantum x)"
      using round_half_even_ge_int [of 0] by simp
    then show ?thesis using x float_quantum_pos [of x] by (simp add: float_round_def)
  qed
qed

lemma float_round_nonpos: "x \<le> 0 \<Longrightarrow> float_round x \<le> 0"
proof -
  assume "x \<le> 0"
  show ?thesis
  proof (cases "x = 0")
    case True
    then show ?thesis by (simp add: float_round_def)
  next
    case False
    with \<open>x \<le> 0\<close> have x: "x < 0" by simp
    then have "0 \<le> - x / float_quantum (- x)"
      using float_quantum_pos [of "- x"] by (intro divide_nonneg_pos) simp_all
    then have "0 \<le> round_half_even (- x / float_quantum (- x))"
      using round_half_even_ge_int [of 0] by simp
    then show ?thesis using x float_quantum_pos [of "- x"] by (simp add: float_round_def)
  qed
qed

lemma float_round_minus: "float_round (- x) = - float_round x"
  by (simp add: float_round_def)

lemma float_round_mono: "x \<le> y \<Longrightarrow> float_round x \<le> float_round y"
proof -
  assume xy: "x \<le> y"
  consider "0 < x" | "x \<le> 0" "0 \<le> y" | "y < 0" by linarith
  then show ?thesis
  proof cases
    case 1
    then show ?thesis using xy by (rule float_round_pos_mono)
  next
    case 2
    then show ?thesis using float_round_nonpos [of x] float_round_nonneg [of y] by linarith
  next
    case 3
    with xy have "0 < - y" "- y \<le> - x" by simp_all
    then have "float_round (- y) \<le> float_round (- x)" by (rule float_round_pos_mono)
    then show ?thesis by (simp add: float_round_minus)
  qed
qed


section \<open>The adaptive delay: bounds and direction\<close>

lemma float_literal_03: "float_round (3 / 10) = 5404319552844595 / 18014398509481984"
  by code_simp

lemma float_mul_100_03: "float_mul 100 (float_round (3 / 10)) = 30"
  by code_simp

lemma float_mul_100_1: "float_mul 100 1 = 100"
  by code_simp

lemma incr_delay_arg_mono:
  "c \<le> c' \<Longrightarrow>
     max (float_round (3 / 10)) (min 1 (float_div (float_of_int c) 500))
     \<le> max (float_round (3 / 10)) (min 1 (float_div (float_of_int c') 500))"
proof -
  assume "c \<le> c'"
  then have "(of_int c :: rat) \<le> of_int c'" by simp
  then have "float_of_int c \<le> float_of_int c'"
    unfolding float_of_int_def by (rule float_round_mono)
  then have "float_of_int c / 500 \<le> float_of_int c' / 500" by simp
  then have "float_div (float_of_int c) 500 \<le> float_div (float_of_int c') 500"
    unfolding float_div_def by (rule float_round_mono)
  then show ?thesis by (simp add: max.coboundedI2 min.coboundedI2)
qed

lemma py_int_floor_mono: "0 \<le> x \<Longrightarrow> x \<le> y \<Longrightarrow> py_int x \<le> py_int y"
  by (simp add: py_int_def floor_mono)

lemma float_mul_100_mono: "x \<le> y \<Longrightarrow> float_mul 100 x \<le> float_mul 100 y"
  unfolding float_mul_def by (rule float_round_mono) simp

text \<open>
  C2 says that the delay is the integer part of \<open>base_delay * max(0.3, min(1, c / cap))\<close>,
  lies between \<open>0.3 * base_delay = 30\<close> and \<open>base_delay = 100\<close>, and does not decrease as
  the count \<open>c\<close> decreases towards 0. The first two parts hold of the code, in the
  float arithmetic the code uses. The direction is the other way round: fewer
  incremental results give a shorter delay, 30 at no result and 100 from 500 results
  on.
\<close>

theorem incr_delay_func_decreases_with_count:
  "incr_delay_func 0 = 30 \<and> incr_delay_func 500 = 100 \<and>
   \<not> incr_delay_func 500 \<le> incr_delay_func 0"
  by code_simp

text \<open>
  C2 as the code has it: the delay is the truncated float product, it lies in
  \<open>[30, 100]\<close>, and it is monotonically non-decreasing in the count, hence
  non-increasing as the count decreases towards 0.
\<close>

theorem incr_delay_func_bounds_mono:
  "incr_delay_func c =
     py_int (float_mul 100 (max (float_round (3 / 10)) (min 1 (float_div (float_of_int c) 500))))
   \<and> 30 \<le> incr_delay_func c \<and> incr_delay_func c \<le> 100
   \<and> (c' \<le> c \<longrightarrow> incr_delay_func c' \<le> incr_delay_func c)"
proof -
  define arg where
    "arg k = max (float_round (3 / 10)) (min 1 (float_div (float_of_int k) 500))" for k
  have eq: "incr_delay_func k = py_int (float_mul 100 (arg k))" for k
    by (simp add: incr_delay_func_def arg_def INCREMENTAL_LIMIT_def MAX_DELAY_UPDATE_INDEX_def)
  have lo: "float_round (3 / 10) \<le> arg k" for k
    by (simp add: arg_def)
  have hi: "arg k \<le> 1" for k
    by (simp add: arg_def float_literal_03)
  have lo': "30 \<le> float_mul 100 (arg k)" for k
    using float_mul_100_mono [OF lo [of k]] by (simp add: float_mul_100_03)
  have hi': "float_mul 100 (arg k) \<le> 100" for k
    using float_mul_100_mono [OF hi [of k]] by (simp add: float_mul_100_1)
  have pos: "0 \<le> float_mul 100 (arg k)" for k
    using lo' [of k] by linarith
  have A: "30 \<le> incr_delay_func c"
    using lo' [of c] pos [of c] by (simp add: eq py_int_def le_floor_iff)
  have B: "incr_delay_func c \<le> 100"
    using hi' [of c] pos [of c] by (simp add: eq py_int_def floor_le_iff)
  have C: "incr_delay_func c' \<le> incr_delay_func c" if "c' \<le> c"
  proof -
    from that have "arg c' \<le> arg c" unfolding arg_def by (rule incr_delay_arg_mono)
    then have "float_mul 100 (arg c') \<le> float_mul 100 (arg c)" by (rule float_mul_100_mono)
    with pos [of c'] show ?thesis unfolding eq by (rule py_int_floor_mono)
  qed
  from eq [of c] A B C show ?thesis unfolding arg_def by blast
qed

theorem incr_delay_func_bounds_mono_witness:
  "(150::int) \<le> 290 \<and> incr_delay_func 150 \<le> incr_delay_func 290 \<and>
   30 \<le> incr_delay_func 290 \<and> incr_delay_func 290 \<le> 100"
  using incr_delay_func_bounds_mono [of 290 150] by simp

text \<open>The rounding shows in the result: \<open>100 * 0.58\<close> is \<open>57.99999999999999\<close> as a float.\<close>

lemma incr_delay_func_290: "incr_delay_func 290 = 57"
  by code_simp

section \<open>What each step of the update leaves alone\<close>

lemma selectItemRelative_frame:
  "found_items (selectItemRelative e rel s) = found_items s"
  "timers (selectItemRelative e rel s) = timers s"
  "filter is_timer_effect (trace (selectItemRelative e rel s)) = filter is_timer_effect (trace s)"
  "loading_pending (selectItemRelative e rel s) = loading_pending s"
  by (auto simp add: selectItemRelative_def lw_setCurrentRow_def lw_setFocus_def emit_def Let_def
        is_timer_effect_def split: option.splits list.splits)

lemma loadItem_frame:
  "found_items (loadItem r s) = found_items s"
  "timers (loadItem r s) = timers s"
  "filter is_timer_effect (trace (loadItem r s)) = filter is_timer_effect (trace s)"
  "listWidgetIndex_currentRow (loadItem r s) = listWidgetIndex_currentRow s"
  by (simp_all add: loadItem_def emit_def Let_def is_timer_effect_def
        split: option.splits list.splits)

lemma run_pending_frame:
  "found_items (run_pending e s) = found_items s"
  "timers (run_pending e s) = timers s"
  "filter is_timer_effect (trace (run_pending e s)) = filter is_timer_effect (trace s)"
  by (simp_all add: run_pending_def Let_def selectItemRelative_frame loadItem_frame)

lemma select_current_url_frame:
  "found_items (select_current_url s) = found_items s"
  "timers (select_current_url s) = timers s"
  "filter is_timer_effect (trace (select_current_url s)) = filter is_timer_effect (trace s)"
  by (simp_all add: select_current_url_def lw_setCurrentRow_def emit_def Let_def is_timer_effect_def
        split: option.splits)

lemma restore_selection_frame:
  "found_items (restore_selection sel s) = found_items s"
  "timers (restore_selection sel s) = timers s"
  "filter is_timer_effect (trace (restore_selection sel s)) = filter is_timer_effect (trace s)"
  by (simp_all add: restore_selection_def lw_setCurrentRow_def emit_def Let_def is_timer_effect_def
        split: option.splits)

lemma update_found_items_frame:
  "found_items (update_found_items s) = Some (merge_found_items (incr_results s) (fts_results s))"
  "timers (update_found_items s) = timers s"
  "trace (update_found_items s) = trace s"
  "listWidgetIndex_currentRow (update_found_items s) = - 1"
  "listWidgetIndex_count (update_found_items s) =
     length (merge_found_items (incr_results s) (fts_results s))"
  "webView_url (update_found_items s) = webView_url s"
  by (simp_all add: update_found_items_def lw_addItems_def lw_clear_def Let_def)

lemma start_spell_correction_frame:
  "incr_results (start_spell_correction s) = incr_results s"
  "fts_results (start_spell_correction s) = fts_results s"
  "found_items (start_spell_correction s) = found_items s"
  "listWidgetIndex_currentRow (start_spell_correction s) = listWidgetIndex_currentRow s"
  by (simp_all add: start_spell_correction_def timer_start_def emit_def)

lemma escape_selection_start_spell_correction:
  "escape_selection (start_spell_correction s) = escape_selection s"
  by (simp add: escape_selection_def Let_def start_spell_correction_frame)

lemma updateIndex_Inr:
  "updateIndex e s = Inr s' \<longleftrightarrow>
     (\<exists>sel. escape_selection s = Inr sel \<and>
        s' = run_pending e (select_current_url
               (restore_selection sel (update_found_items (start_spell_correction s)))))"
  by (auto simp add: updateIndex_def Let_def escape_selection_start_spell_correction
        split: sum.splits)

lemma updateIndex_found_items:
  "updateIndex e s = Inr s' \<Longrightarrow>
     found_items s' = Some (merge_found_items (incr_results s) (fts_results s))"
  by (auto simp add: updateIndex_Inr run_pending_frame select_current_url_frame
        restore_selection_frame update_found_items_frame start_spell_correction_frame)


lemma updateIndex_returns:
  assumes "listWidgetIndex_currentRow s = - 1 \<or>
     (\<exists>found. found_items s = Some found \<and> 0 \<le> listWidgetIndex_currentRow s \<and>
        listWidgetIndex_currentRow s < int (length found))"
  shows "\<exists>s'. updateIndex e s = Inr s'"
proof -
  from assms have "\<exists>sel. escape_selection s = Inr sel"
    by (auto simp add: escape_selection_def found_items_getitem_def Let_def)
  then show ?thesis by (auto simp add: updateIndex_Inr)
qed

lemma updateIndex_nothing_found:
  assumes "incr_results s = None" and "fts_results s = None" and "updateIndex e s = Inr s'"
  shows "found_items s' = Some []" and "trace s' = trace s" and "timers s' = timers s"
proof -
  from assms(3) obtain sel where
    s': "s' = run_pending e (select_current_url
               (restore_selection sel (update_found_items (start_spell_correction s))))"
    by (auto simp add: updateIndex_Inr)
  have s1: "start_spell_correction s = s"
    using assms(1) by (simp add: start_spell_correction_def spell_correction_due_def)
  define u where "u = update_found_items s"
  have u: "found_items u = Some []" "trace u = trace s" "timers u = timers s"
    using assms(1,2) by (simp_all add: u_def update_found_items_frame)
  have r: "restore_selection sel u = u"
    using u(1) by (simp add: restore_selection_def found_list_def split: option.splits)
  have c: "select_current_url u = u"
    using u(1) by (simp add: select_current_url_def found_list_def)
  have p: "found_items (run_pending e u) = Some []" "trace (run_pending e u) = trace u"
    "timers (run_pending e u) = timers u"
    using u(1) by (simp_all add: run_pending_def selectItemRelative_def loadItem_def Let_def)
  from p u show "found_items s' = Some []" and "trace s' = trace s" and "timers s' = timers s"
    by (simp_all add: s' s1 u_def [symmetric] r c)
qed


section \<open>The merged list\<close>

lemma merge_found_items_both:
  "merge_found_items (Some incr) (Some full) =
     incr @ filter (\<lambda>item. path_getter item \<notin> path_getter ` set incr) full"
  by (cases incr; cases full) (simp_all add: Let_def)

lemma filter_path_distinct:
  "distinct (map path_getter xs) \<Longrightarrow> x \<in> set xs \<Longrightarrow>
     filter (\<lambda>y. path_getter y = path_getter x) xs = [x]"
proof (induction xs)
  case Nil
  then show ?case by simp
next
  case (Cons a xs)
  show ?case
  proof (cases "x = a")
    case True
    from Cons.prems(1) have "\<forall>y\<in>set xs. path_getter y \<noteq> path_getter a"
      by (auto simp add: image_iff)
    then have "filter (\<lambda>y. path_getter y = path_getter a) xs = []"
      by (simp add: filter_empty_conv)
    with True show ?thesis by simp
  next
    case False
    with Cons.prems have x: "x \<in> set xs" and d: "distinct (map path_getter xs)"
      and "path_getter a \<notin> path_getter ` set xs" by auto
    then have "path_getter a \<noteq> path_getter x" by auto
    with Cons.IH [OF d x] show ?thesis by simp
  qed
qed

lemma filter_path_closed:
  "p \<in> path_getter ` set incr \<Longrightarrow>
     filter (\<lambda>y. path_getter y = p)
       (filter (\<lambda>item. path_getter item \<notin> path_getter ` set incr) full) = []"
  by (auto simp add: filter_empty_conv)

text \<open>
  C1 says that an item whose path occurs in both sequences appears exactly once in
  the committed list. The merge drops from \<open>full\<close> the items whose path occurs in
  \<open>incr\<close> and drops nothing from \<open>incr\<close>: here \<open>incr\<close> holds two items with the path
  \<open>/1\<close>, \<open>full\<close> holds one, and the committed list keeps both items of \<open>incr\<close>.
\<close>

theorem merge_keeps_repeated_path:
  "map_sum id found_items
     (updateIndex
        \<lparr>incremental_Searcher = Inl EnvironmentError, fts_hwdphr_async = False,
         normalize_index_key = (\<lambda>key. key)\<rparr>
        (init_state\<lparr>
           incr_results := Some
             [\<lparr>text_getter = ''color'', path_getter = ''/1'', sortkey_getter = ''color'', prio_getter = 0\<rparr>,
              \<lparr>text_getter = ''colour'', path_getter = ''/1'', sortkey_getter = ''colour'', prio_getter = 0\<rparr>],
           fts_results := Some
             [\<lparr>text_getter = ''<b>colour</b>'', path_getter = ''/1'', sortkey_getter = ''colour'', prio_getter = 0\<rparr>]\<rparr>))
     = Inr (Some
         [\<lparr>text_getter = ''color'', path_getter = ''/1'', sortkey_getter = ''color'', prio_getter = 0\<rparr>,
          \<lparr>text_getter = ''colour'', path_getter = ''/1'', sortkey_getter = ''colour'', prio_getter = 0\<rparr>])
   \<and> length (filter (\<lambda>item. path_getter item = ''/1'')
         [\<lparr>text_getter = ''color'', path_getter = ''/1'', sortkey_getter = ''color'', prio_getter = 0\<rparr>,
          \<lparr>text_getter = ''colour'', path_getter = ''/1'', sortkey_getter = ''colour'', prio_getter = 0\<rparr>])
     = 2"
proof -
  let ?e = "\<lparr>incremental_Searcher = Inl EnvironmentError, fts_hwdphr_async = False,
           normalize_index_key = (\<lambda>key. key)\<rparr>"
  let ?incr = "[\<lparr>text_getter = ''color'', path_getter = ''/1'', sortkey_getter = ''color'', prio_getter = 0\<rparr>,
                \<lparr>text_getter = ''colour'', path_getter = ''/1'', sortkey_getter = ''colour'', prio_getter = 0\<rparr>]"
  let ?full = "[\<lparr>text_getter = ''<b>colour</b>'', path_getter = ''/1'', sortkey_getter = ''colour'', prio_getter = 0\<rparr>]"
  let ?s = "init_state\<lparr>incr_results := Some ?incr, fts_results := Some ?full\<rparr>"
  have "escape_selection ?s = Inr None"
    by (simp add: escape_selection_def init_state_def)
  then obtain s' where s': "updateIndex ?e ?s = Inr s'"
    by (auto simp add: updateIndex_Inr)
  have "found_items s' = Some (merge_found_items (incr_results ?s) (fts_results ?s))"
    using s' by (rule updateIndex_found_items)
  then have "found_items s' = Some ?incr"
    by (simp add: Let_def)
  then show ?thesis by (simp add: s')
qed

text \<open>
  C1 as the code has it: when both result sequences are present, the list that
  \<^verbatim>\<open>_updateIndex\<close> commits is \<open>incr\<close> followed by the items of \<open>full\<close> whose path does
  not occur in \<open>incr\<close>, each part in its own order; the first \<open>length incr\<close> rows are
  those of \<open>incr\<close>; the items of the list with a path of \<open>incr\<close> are those of \<open>incr\<close>
  and no other; and where the paths of \<open>incr\<close> are distinct, an item of \<open>incr\<close> whose
  path also occurs in \<open>full\<close> is the only item of the list with that path.
\<close>

theorem updateIndex_merges_incr_then_full:
  assumes "incr_results s = Some incr" and "fts_results s = Some full"
    and "updateIndex e s = Inr s'"
  shows "\<exists>found. found_items s' = Some found
     \<and> found = incr @ filter (\<lambda>item. path_getter item \<notin> path_getter ` set incr) full
     \<and> (\<forall>i<length incr. found ! i = incr ! i)
     \<and> (\<forall>p\<in>path_getter ` set incr.
           filter (\<lambda>y. path_getter y = p) found = filter (\<lambda>y. path_getter y = p) incr)
     \<and> (distinct (map path_getter incr) \<longrightarrow>
          (\<forall>x\<in>set incr. path_getter x \<in> path_getter ` set full \<longrightarrow>
             filter (\<lambda>y. path_getter y = path_getter x) found = [x]))"
proof -
  let ?found = "incr @ filter (\<lambda>item. path_getter item \<notin> path_getter ` set incr) full"
  from assms have A: "found_items s' = Some ?found"
    by (simp add: updateIndex_found_items merge_found_items_both)
  have B: "\<forall>i<length incr. ?found ! i = incr ! i"
    by (simp add: nth_append)
  have B': "\<forall>p\<in>path_getter ` set incr.
      filter (\<lambda>y. path_getter y = p) ?found = filter (\<lambda>y. path_getter y = p) incr"
  proof
    fix p assume "p \<in> path_getter ` set incr"
    then show "filter (\<lambda>y. path_getter y = p) ?found = filter (\<lambda>y. path_getter y = p) incr"
      by (simp only: filter_append filter_path_closed append_Nil2)
  qed
  have C: "filter (\<lambda>y. path_getter y = path_getter x) ?found = [x]"
    if "distinct (map path_getter incr)" and "x \<in> set incr" for x
  proof -
    from that(2) have "path_getter x \<in> path_getter ` set incr" by simp
    then show ?thesis
      by (simp only: filter_append filter_path_distinct [OF that] filter_path_closed append_Nil2)
  qed
  from A B B' C show ?thesis by blast
qed

theorem updateIndex_merges_incr_then_full_witness:
  "\<exists>s'. updateIndex
          \<lparr>incremental_Searcher = Inl EnvironmentError, fts_hwdphr_async = False,
           normalize_index_key = (\<lambda>key. key)\<rparr>
          (init_state\<lparr>
             incr_results := Some
               [\<lparr>text_getter = ''cat'', path_getter = ''/1'', sortkey_getter = ''cat'', prio_getter = 0\<rparr>,
                \<lparr>text_getter = ''cats'', path_getter = ''/2'', sortkey_getter = ''cats'', prio_getter = 0\<rparr>],
             fts_results := Some
               [\<lparr>text_getter = ''<b>cats</b>'', path_getter = ''/2'', sortkey_getter = ''cats'', prio_getter = 0\<rparr>,
                \<lparr>text_getter = ''cattle'', path_getter = ''/3'', sortkey_getter = ''cattle'', prio_getter = 0\<rparr>]\<rparr>)
        = Inr s'
     \<and> found_items s' = Some
          [\<lparr>text_getter = ''cat'', path_getter = ''/1'', sortkey_getter = ''cat'', prio_getter = 0\<rparr>,
           \<lparr>text_getter = ''cats'', path_getter = ''/2'', sortkey_getter = ''cats'', prio_getter = 0\<rparr>,
           \<lparr>text_getter = ''cattle'', path_getter = ''/3'', sortkey_getter = ''cattle'', prio_getter = 0\<rparr>]
     \<and> filter (\<lambda>y. path_getter y = ''/2'') (the (found_items s')) =
          [\<lparr>text_getter = ''cats'', path_getter = ''/2'', sortkey_getter = ''cats'', prio_getter = 0\<rparr>]"
proof -
  let ?e = "\<lparr>incremental_Searcher = Inl EnvironmentError, fts_hwdphr_async = False,
           normalize_index_key = (\<lambda>key. key)\<rparr>"
  let ?incr = "[\<lparr>text_getter = ''cat'', path_getter = ''/1'', sortkey_getter = ''cat'', prio_getter = 0\<rparr>,
                \<lparr>text_getter = ''cats'', path_getter = ''/2'', sortkey_getter = ''cats'', prio_getter = 0\<rparr>]"
  let ?full = "[\<lparr>text_getter = ''<b>cats</b>'', path_getter = ''/2'', sortkey_getter = ''cats'', prio_getter = 0\<rparr>,
                \<lparr>text_getter = ''cattle'', path_getter = ''/3'', sortkey_getter = ''cattle'', prio_getter = 0\<rparr>]"
  let ?s = "init_state\<lparr>incr_results := Some ?incr, fts_results := Some ?full\<rparr>"
  have "escape_selection ?s = Inr None"
    by (simp add: escape_selection_def init_state_def)
  then obtain s' where s': "updateIndex ?e ?s = Inr s'"
    by (auto simp add: updateIndex_Inr)
  have "incr_results ?s = Some ?incr" "fts_results ?s = Some ?full" by simp_all
  from updateIndex_merges_incr_then_full [OF this s'] s'
  show ?thesis by auto
qed


section \<open>What each step of the update adds to the trace\<close>

lemma selectItemRelative_trace:
  "\<exists>new. trace (selectItemRelative e rel s) = trace s @ new \<and> filter is_timer_effect new = []"
  by (auto simp add: selectItemRelative_def lw_setCurrentRow_def lw_setFocus_def emit_def Let_def
        is_timer_effect_def split: option.splits list.splits)

lemma loadItem_trace:
  "\<exists>new. trace (loadItem r s) = trace s @ new \<and> filter is_timer_effect new = []"
  by (auto simp add: loadItem_def emit_def Let_def is_timer_effect_def
        split: option.splits list.splits)

lemma run_pending_trace:
  "\<exists>new. trace (run_pending e s) = trace s @ new \<and> filter is_timer_effect new = []"
proof -
  define s1 where
    "s1 = (if selection_pending s then selectItemRelative e 0 (s\<lparr>selection_pending := False\<rparr>) else s)"
  have "\<exists>new. trace s1 = trace s @ new \<and> filter is_timer_effect new = []"
    using selectItemRelative_trace [of e 0 "s\<lparr>selection_pending := False\<rparr>"]
    by (simp add: s1_def)
  then obtain n1 where n1: "trace s1 = trace s @ n1" "filter is_timer_effect n1 = []" by blast
  have "\<exists>new. trace (run_pending e s) = trace s1 @ new \<and> filter is_timer_effect new = []"
    using loadItem_trace [of None "s1\<lparr>loading_pending := False\<rparr>"]
    by (simp add: run_pending_def s1_def [symmetric])
  then obtain n2 where "trace (run_pending e s) = trace s1 @ n2" "filter is_timer_effect n2 = []"
    by blast
  with n1 have "trace (run_pending e s) = trace s @ (n1 @ n2) \<and> filter is_timer_effect (n1 @ n2) = []"
    by simp
  then show ?thesis by blast
qed

lemma select_current_url_trace:
  "\<exists>new. trace (select_current_url s) = trace s @ new \<and> filter is_timer_effect new = []"
  by (auto simp add: select_current_url_def lw_setCurrentRow_def emit_def Let_def
        is_timer_effect_def split: option.splits)

lemma restore_selection_trace:
  "\<exists>new. trace (restore_selection sel s) = trace s @ new \<and> filter is_timer_effect new = []"
  by (auto simp add: restore_selection_def lw_setCurrentRow_def emit_def Let_def
        is_timer_effect_def split: option.splits)

lemma start_spell_correction_trace:
  "trace (start_spell_correction s) =
     trace s @ (if spell_correction_due s then [TimerStart TimerSpellCorrection 200] else [])"
  "timers (start_spell_correction s) =
     (if spell_correction_due s then (timers s)(TimerSpellCorrection := Some 200) else timers s)"
  by (simp_all add: start_spell_correction_def timer_start_def emit_def)

lemma spell_correction_due_iff:
  "spell_correction_due s \<longleftrightarrow>
     incr_results s = Some [] \<and> fts_results s = Some [] \<and>
     length (py_split (py_strip (lineEditSearch_text s))) = 1"
  by (simp add: spell_correction_due_def Let_def split: option.splits)


section \<open>The spell-correction timer\<close>

text \<open>
  C6: a commit starts the spell-correction timer if and only if both results are
  present, both are empty and the stripped text of the search box splits into
  exactly one token; it starts it with 200 ms, and it starts or stops no other
  timer.
\<close>

theorem updateIndex_starts_spell_correction:
  assumes "updateIndex e s = Inr s'"
  shows "\<exists>new. trace s' = trace s @ new
     \<and> filter is_timer_effect new =
         (if incr_results s = Some [] \<and> fts_results s = Some [] \<and>
             length (py_split (py_strip (lineEditSearch_text s))) = 1
          then [TimerStart TimerSpellCorrection 200] else [])
     \<and> timers s' =
         (if incr_results s = Some [] \<and> fts_results s = Some [] \<and>
             length (py_split (py_strip (lineEditSearch_text s))) = 1
          then (timers s)(TimerSpellCorrection := Some 200) else timers s)"
proof -
  from assms obtain sel where
    s': "s' = run_pending e (select_current_url
               (restore_selection sel (update_found_items (start_spell_correction s))))"
    by (auto simp add: updateIndex_Inr)
  define s1 where "s1 = start_spell_correction s"
  define s2 where "s2 = restore_selection sel (update_found_items s1)"
  define s3 where "s3 = select_current_url s2"
  define n0 where
    "n0 = (if spell_correction_due s then [TimerStart TimerSpellCorrection 200] else [])"
  have t1: "trace s1 = trace s @ n0"
    by (simp add: s1_def n0_def start_spell_correction_trace)
  obtain n2 where n2: "trace s2 = trace s1 @ n2" "filter is_timer_effect n2 = []"
    using restore_selection_trace [of sel "update_found_items s1"]
    by (auto simp add: s2_def update_found_items_frame)
  obtain n3 where n3: "trace s3 = trace s2 @ n3" "filter is_timer_effect n3 = []"
    using select_current_url_trace [of s2] by (auto simp add: s3_def)
  obtain n4 where n4: "trace s' = trace s3 @ n4" "filter is_timer_effect n4 = []"
    using run_pending_trace [of e s3] by (auto simp add: s' s3_def s2_def s1_def)
  have A: "trace s' = trace s @ (n0 @ n2 @ n3 @ n4)"
    by (simp add: n4 n3 n2 t1)
  have B: "filter is_timer_effect (n0 @ n2 @ n3 @ n4) = n0"
    by (simp add: n4 n3 n2 n0_def is_timer_effect_def)
  have C: "timers s' = timers s1"
    by (simp add: s' s1_def run_pending_frame select_current_url_frame restore_selection_frame
          update_found_items_frame)
  have D: "timers s1 =
     (if spell_correction_due s then (timers s)(TimerSpellCorrection := Some 200) else timers s)"
    by (simp add: s1_def start_spell_correction_trace)
  have due: "spell_correction_due s \<longleftrightarrow>
     incr_results s = Some [] \<and> fts_results s = Some [] \<and>
     length (py_split (py_strip (lineEditSearch_text s))) = 1"
    by (rule spell_correction_due_iff)
  have B': "filter is_timer_effect (n0 @ n2 @ n3 @ n4) =
         (if incr_results s = Some [] \<and> fts_results s = Some [] \<and>
             length (py_split (py_strip (lineEditSearch_text s))) = 1
          then [TimerStart TimerSpellCorrection 200] else [])"
    using B unfolding n0_def due .
  have D': "timers s' =
         (if incr_results s = Some [] \<and> fts_results s = Some [] \<and>
             length (py_split (py_strip (lineEditSearch_text s))) = 1
          then (timers s)(TimerSpellCorrection := Some 200) else timers s)"
    using D unfolding C [symmetric] due .
  from A B' D' show ?thesis by (intro exI [of _ "n0 @ n2 @ n3 @ n4"] conjI)
qed


theorem updateIndex_starts_spell_correction_witness:
  "\<exists>s'. updateIndex
          \<lparr>incremental_Searcher = Inl EnvironmentError, fts_hwdphr_async = False,
           normalize_index_key = (\<lambda>key. key)\<rparr>
          (init_state\<lparr>incr_results := Some [], fts_results := Some [],
                      lineEditSearch_text := '' wierd ''\<rparr>) = Inr s'
     \<and> filter is_timer_effect (trace s') = [TimerStart TimerSpellCorrection 200]
     \<and> timers s' TimerSpellCorrection = Some 200"
proof -
  let ?e = "\<lparr>incremental_Searcher = Inl EnvironmentError, fts_hwdphr_async = False,
           normalize_index_key = (\<lambda>key. key)\<rparr>"
  let ?s = "init_state\<lparr>incr_results := Some [], fts_results := Some [],
                      lineEditSearch_text := '' wierd ''\<rparr>"
  have "escape_selection ?s = Inr None"
    by (simp add: escape_selection_def init_state_def)
  then obtain s' where s': "updateIndex ?e ?s = Inr s'"
    by (auto simp add: updateIndex_Inr)
  have tok: "py_split (py_strip '' wierd '') = [''wierd'']"
    by (simp add: py_split_def py_strip_def is_space_def)
  have tr: "trace ?s = []" by (simp add: init_state_def)
  from updateIndex_starts_spell_correction [OF s'] obtain new where
    "trace s' = trace ?s @ new"
    "filter is_timer_effect new = [TimerStart TimerSpellCorrection 200]"
    "timers s' = (timers ?s)(TimerSpellCorrection := Some 200)"
    by (auto simp add: tok)
  then have "filter is_timer_effect (trace s') = [TimerStart TimerSpellCorrection 200]"
    and "timers s' TimerSpellCorrection = Some 200"
    by (simp_all add: tr)
  with s' show ?thesis by blast
qed


section \<open>The search entry point, case by case\<close>

lemma reset_search_trace:
  "trace (reset_search e pending s) =
     trace s @ TimerStop TimerSearchingLabel # (if fts_hwdphr_async e then [FtsCancel] else [])
       @ [TimerStop TimerUpdateIndex, TimerStop TimerAutoFTS, TimerStop TimerSpellCorrection]"
  by (simp add: reset_search_def timer_stop_def emit_def Let_def)

lemma reset_search_timers: "timers (reset_search e pending s) = (\<lambda>t. None)"
proof
  fix t
  show "timers (reset_search e pending s) t = None"
    by (cases t) (simp_all add: reset_search_def timer_stop_def emit_def Let_def)
qed

lemma reset_search_fields:
  "incr_results (reset_search e pending s) = None"
  "fts_results (reset_search e pending s) = None"
  "found_items (reset_search e pending s) = found_items s"
  "listWidgetIndex_currentRow (reset_search e pending s) = listWidgetIndex_currentRow s"
  by (simp_all add: reset_search_def timer_stop_def emit_def Let_def)

lemma incremental_search_eq:
  "incremental_search e key s =
     (case incremental_Searcher e of
        Inl exc \<Rightarrow> if is_index_failure exc then Inr (None, s) else Inl exc
      | Inr obj \<Rightarrow>
          (case obj key INCREMENTAL_LIMIT of
             Inl exc \<Rightarrow>
               if is_index_failure exc
               then Inr (None, emit (IncrementalSearch key INCREMENTAL_LIMIT) s)
               else Inl exc
           | Inr rs \<Rightarrow> Inr (Some rs, emit (IncrementalSearch key INCREMENTAL_LIMIT) s)))"
  by (simp add: incremental_search_def incremental_def split: sum.splits)

lemma incremental_search_Inl:
  "incremental_search e key s = Inl exc \<Longrightarrow> incremental_search e key s' = Inl exc"
  by (auto simp add: incremental_search_eq split: sum.splits if_splits)

lemma instantSearch_empty:
  "lineEditSearch_text s = [] \<Longrightarrow>
     instantSearch e pending delay s =
       Inr (timer_start TimerUpdateIndex 0 (reset_search e pending s))"
  by (simp add: instantSearch_def Let_def)

lemma instantSearch_wild:
  "contains_wild (lineEditSearch_text s) \<Longrightarrow>
     instantSearch e pending delay s =
       Inr (timer_start TimerUpdateIndex (if delay then incr_delay_func 0 else 0)
             (timer_start TimerAutoFTS 0
               ((reset_search e pending s)
                  \<lparr>incr_results := Some [], auto_fts_phrase := Some (lineEditSearch_text s)\<rparr>)))"
  by (auto simp add: instantSearch_def Let_def contains_wild_def)

lemma instantSearch_absent:
  assumes "lineEditSearch_text s \<noteq> []" and "\<not> contains_wild (lineEditSearch_text s)"
    and "incremental_search e (lineEditSearch_text s) (reset_search e pending s) = Inr (None, s6)"
  shows "instantSearch e pending delay s =
       Inr (timer_start TimerUpdateIndex 0 (emit (WebViewSetHtml index_advisory) s6))"
  using assms by (simp add: instantSearch_def Let_def)

lemma instantSearch_found:
  assumes "lineEditSearch_text s \<noteq> []" and "\<not> contains_wild (lineEditSearch_text s)"
    and "incremental_search e (lineEditSearch_text s) (reset_search e pending s) = Inr (Some rs, s6)"
  shows "instantSearch e pending delay s =
       Inr (timer_start TimerUpdateIndex (if delay then incr_delay_func (int (length rs)) else 0)
             (timer_start TimerAutoFTS 0
               (s6\<lparr>incr_results := Some rs, auto_fts_phrase := Some (lineEditSearch_text s)\<rparr>)))"
  using assms by (simp add: instantSearch_def Let_def)

lemma instantSearch_raises:
  assumes "lineEditSearch_text s \<noteq> []" and "\<not> contains_wild (lineEditSearch_text s)"
    and "incremental_search e (lineEditSearch_text s) (reset_search e pending s) = Inl exc"
  shows "instantSearch e pending delay s = Inl exc"
  using assms by (simp add: instantSearch_def Let_def)

lemma timer_fired_fields:
  "incr_results (timer_fired t s) = incr_results s"
  "fts_results (timer_fired t s) = fts_results s"
  "found_items (timer_fired t s) = found_items s"
  "listWidgetIndex_currentRow (timer_fired t s) = listWidgetIndex_currentRow s"
  "trace (timer_fired t s) = trace s"
  "auto_fts_phrase (timer_fired t s) = auto_fts_phrase s"
  "timers (timer_fired t s) = (timers s)(t := None)"
  by (simp_all add: timer_fired_def)

lemma timer_start_fields:
  "incr_results (timer_start t msec s) = incr_results s"
  "fts_results (timer_start t msec s) = fts_results s"
  "found_items (timer_start t msec s) = found_items s"
  "listWidgetIndex_currentRow (timer_start t msec s) = listWidgetIndex_currentRow s"
  "auto_fts_phrase (timer_start t msec s) = auto_fts_phrase s"
  "trace (timer_start t msec s) = trace s @ [TimerStart t msec]"
  "timers (timer_start t msec s) = (timers s)(t := Some msec)"
  by (simp_all add: timer_start_def emit_def)

lemma emit_fields:
  "incr_results (emit x s) = incr_results s"
  "fts_results (emit x s) = fts_results s"
  "found_items (emit x s) = found_items s"
  "listWidgetIndex_currentRow (emit x s) = listWidgetIndex_currentRow s"
  "auto_fts_phrase (emit x s) = auto_fts_phrase s"
  "trace (emit x s) = trace s @ [x]"
  "timers (emit x s) = timers s"
  by (simp_all add: emit_def)


lemma incremental_search_Inr:
  assumes "incremental_search e key s = Inr (r, s6)"
  shows "\<exists>s6'. incremental_search e key s' = Inr (r, s6')
     \<and> incr_results s6' = incr_results s' \<and> fts_results s6' = fts_results s'
     \<and> found_items s6' = found_items s'
     \<and> listWidgetIndex_currentRow s6' = listWidgetIndex_currentRow s'
     \<and> timers s6' = timers s'
     \<and> trace s6' =
         trace s' @ (case incremental_Searcher e of
                      Inl exc \<Rightarrow> []
                    | Inr obj \<Rightarrow> [IncrementalSearch key INCREMENTAL_LIMIT])"
  using assms
  by (auto simp add: incremental_search_eq emit_fields split: sum.splits if_splits)


section \<open>The empty query\<close>

text \<open>
  C3 says that an empty query commits an empty list with no backend call and no
  timer scheduled. The code schedules the commit itself: with an empty search box
  \<^verbatim>\<open>_instantSearch\<close> returns after \<^verbatim>\<open>self._timerUpdateIndex.start(0)\<close>, its last call.
\<close>

theorem empty_query_starts_update_timer:
  "lineEditSearch_text init_state = [] \<and>
   map_sum id trace
     (instantSearch
        \<lparr>incremental_Searcher = Inl EnvironmentError, fts_hwdphr_async = False,
         normalize_index_key = (\<lambda>key. key)\<rparr> False True init_state) =
     Inr [TimerStop TimerSearchingLabel, TimerStop TimerUpdateIndex, TimerStop TimerAutoFTS,
          TimerStop TimerSpellCorrection, TimerStart TimerUpdateIndex 0] \<and>
   map_sum id (\<lambda>s1. timers s1 TimerUpdateIndex)
     (instantSearch
        \<lparr>incremental_Searcher = Inl EnvironmentError, fts_hwdphr_async = False,
         normalize_index_key = (\<lambda>key. key)\<rparr> False True init_state) = Inr (Some 0)"
proof -
  have e: "lineEditSearch_text init_state = []" by (simp add: init_state_def)
  have t: "trace init_state = []" by (simp add: init_state_def)
  show ?thesis
    by (simp add: instantSearch_empty [OF e] timer_start_fields reset_search_trace e t)
qed

text \<open>
  C3 as the code has it: with an empty search box \<^verbatim>\<open>_instantSearch\<close> returns, having
  stopped the four timers, cancelled a running full-text search, requested no
  search from either backend and started the update timer with delay 0, the only
  timer left running; the commit that this timer triggers leaves an empty list,
  makes no call and starts no timer.
\<close>

theorem instantSearch_empty_query:
  assumes "lineEditSearch_text s = []"
  shows "\<exists>s1. instantSearch e pending delay s = Inr s1
     \<and> trace s1 =
       trace s @ TimerStop TimerSearchingLabel # (if fts_hwdphr_async e then [FtsCancel] else [])
         @ [TimerStop TimerUpdateIndex, TimerStop TimerAutoFTS, TimerStop TimerSpellCorrection,
            TimerStart TimerUpdateIndex 0]
     \<and> timers s1 = (\<lambda>t. None)(TimerUpdateIndex := Some 0)
     \<and> incr_results s1 = None \<and> fts_results s1 = None
     \<and> (\<forall>s'. updateIndex e (timer_fired TimerUpdateIndex s1) = Inr s' \<longrightarrow>
           found_items s' = Some [] \<and> trace s' = trace s1 \<and> timers s' = (\<lambda>t. None))
     \<and> (listWidgetIndex_currentRow s = - 1 \<or>
         (\<exists>found. found_items s = Some found \<and> 0 \<le> listWidgetIndex_currentRow s \<and>
            listWidgetIndex_currentRow s < int (length found)) \<longrightarrow>
         (\<exists>s'. updateIndex e (timer_fired TimerUpdateIndex s1) = Inr s'))"
proof -
  define s1 where "s1 = timer_start TimerUpdateIndex 0 (reset_search e pending s)"
  note s1 = s1_def
  have R: "instantSearch e pending delay s = Inr s1"
    using assms by (simp add: instantSearch_empty s1)
  have A: "trace s1 =
       trace s @ TimerStop TimerSearchingLabel # (if fts_hwdphr_async e then [FtsCancel] else [])
         @ [TimerStop TimerUpdateIndex, TimerStop TimerAutoFTS, TimerStop TimerSpellCorrection,
            TimerStart TimerUpdateIndex 0]"
    by (simp add: s1 timer_start_fields reset_search_trace)
  have B: "timers s1 = (\<lambda>t. None)(TimerUpdateIndex := Some 0)"
    by (simp add: s1 timer_start_fields reset_search_timers)
  have C: "incr_results s1 = None" "fts_results s1 = None"
    by (simp_all add: s1 timer_start_fields reset_search_fields)
  have D: "found_items s' = Some [] \<and> trace s' = trace s1 \<and> timers s' = (\<lambda>t. None)"
    if "updateIndex e (timer_fired TimerUpdateIndex s1) = Inr s'" for s'
    using updateIndex_nothing_found [OF _ _ that] C B
    by (simp add: timer_fired_fields)
  have E: "\<exists>s'. updateIndex e (timer_fired TimerUpdateIndex s1) = Inr s'"
    if "listWidgetIndex_currentRow s = - 1 \<or>
         (\<exists>found. found_items s = Some found \<and> 0 \<le> listWidgetIndex_currentRow s \<and>
            listWidgetIndex_currentRow s < int (length found))"
    using that
    by (intro updateIndex_returns)
       (simp add: timer_fired_fields s1 timer_start_fields reset_search_fields)
  from R A B C D E show ?thesis by blast
qed

theorem instantSearch_empty_query_witness:
  "lineEditSearch_text init_state = [] \<and>
   (\<exists>s1 s'. instantSearch
               \<lparr>incremental_Searcher = Inl EnvironmentError, fts_hwdphr_async = False,
                normalize_index_key = (\<lambda>key. key)\<rparr> False True init_state = Inr s1
        \<and> updateIndex
            \<lparr>incremental_Searcher = Inl EnvironmentError, fts_hwdphr_async = False,
             normalize_index_key = (\<lambda>key. key)\<rparr>
            (timer_fired TimerUpdateIndex s1) = Inr s'
        \<and> found_items s' = Some [] \<and> timers s' = (\<lambda>t. None))"
proof -
  let ?e = "\<lparr>incremental_Searcher = Inl EnvironmentError, fts_hwdphr_async = False,
            normalize_index_key = (\<lambda>key. key)\<rparr>"
  have e: "lineEditSearch_text init_state = []" by (simp add: init_state_def)
  have r: "listWidgetIndex_currentRow init_state = - 1" by (simp add: init_state_def)
  from instantSearch_empty_query [OF e, of ?e False True] r e
  show ?thesis by blast
qed


section \<open>Wildcard queries\<close>

lemma contains_wild_iff:
  "contains_wild query \<longleftrightarrow> CHR ''*'' \<in> set query \<or> CHR ''?'' \<in> set query"
  by (simp add: contains_wild_def)

text \<open>
  C4: for a query with a wildcard marker (\<open>*\<close> or \<open>?\<close>) \<^verbatim>\<open>_instantSearch\<close> makes no
  call on the incremental searcher; it takes the empty list as the incremental
  result and starts the full-text timer, and when that timer fires the full-text
  searcher, where there is one, receives the query with the item kinds
  \<open>(''hm'',)\<close>, the limit \<open>10001\<close> and merge mode on.
\<close>

theorem instantSearch_wildcard_query:
  assumes "CHR ''*'' \<in> set (lineEditSearch_text s) \<or> CHR ''?'' \<in> set (lineEditSearch_text s)"
  shows "\<exists>s1. instantSearch e pending delay s = Inr s1
     \<and> trace s1 =
       trace s @ TimerStop TimerSearchingLabel # (if fts_hwdphr_async e then [FtsCancel] else [])
         @ [TimerStop TimerUpdateIndex, TimerStop TimerAutoFTS, TimerStop TimerSpellCorrection,
            TimerStart TimerAutoFTS 0,
            TimerStart TimerUpdateIndex (if delay then incr_delay_func 0 else 0)]
     \<and> incr_results s1 = Some [] \<and> auto_fts_phrase s1 = Some (lineEditSearch_text s)
     \<and> timers s1 TimerAutoFTS = Some 0
     \<and> (\<exists>s2. onTimerAutoFullSearchTimeout e (timer_fired TimerAutoFTS s1) = Inr s2
           \<and> trace s2 = trace s1 @
               (if fts_hwdphr_async e
                then [TimerStart TimerSearchingLabel 200,
                      FtsUpdateQuery
                        \<lparr>query_str1 = lineEditSearch_text s, query_str2 = None,
                         itemtypes = [''hm''], limit = Some 10001, merge = True\<rparr>]
                else []))"
proof -
  from assms(1) have w: "contains_wild (lineEditSearch_text s)"
    by (simp add: contains_wild_iff)
  define s1 where "s1 = timer_start TimerUpdateIndex (if delay then incr_delay_func 0 else 0)
         (timer_start TimerAutoFTS 0
           ((reset_search e pending s)
              \<lparr>incr_results := Some [], auto_fts_phrase := Some (lineEditSearch_text s)\<rparr>))"
  note s1 = s1_def
  have R: "instantSearch e pending delay s = Inr s1"
    unfolding s1 using w by (rule instantSearch_wild)
  have A: "trace s1 =
       trace s @ TimerStop TimerSearchingLabel # (if fts_hwdphr_async e then [FtsCancel] else [])
         @ [TimerStop TimerUpdateIndex, TimerStop TimerAutoFTS, TimerStop TimerSpellCorrection,
            TimerStart TimerAutoFTS 0,
            TimerStart TimerUpdateIndex (if delay then incr_delay_func 0 else 0)]"
    by (simp add: s1 timer_start_fields reset_search_trace)
  have B: "incr_results s1 = Some []" "auto_fts_phrase s1 = Some (lineEditSearch_text s)"
    "timers s1 TimerAutoFTS = Some 0"
    by (simp_all add: s1 timer_start_fields)
  have q: "list_ex (\<lambda>c. c \<in> set (lineEditSearch_text s)) ''?*''"
    using assms(1) by auto
  have C: "\<exists>s2. onTimerAutoFullSearchTimeout e (timer_fired TimerAutoFTS s1) = Inr s2
           \<and> trace s2 = trace s1 @
               (if fts_hwdphr_async e
                then [TimerStart TimerSearchingLabel 200,
                      FtsUpdateQuery
                        \<lparr>query_str1 = lineEditSearch_text s, query_str2 = None,
                         itemtypes = [''hm''], limit = Some 10001, merge = True\<rparr>]
                else [])"
    using q B(2)
    by (simp add: onTimerAutoFullSearchTimeout_def timer_fired_fields timer_start_fields
          emit_fields FTS_HWDPHR_LIMIT_def Let_def)
  from R A B C show ?thesis by blast
qed

theorem instantSearch_wildcard_query_witness:
  "CHR ''*'' \<in> set ''examp*e'' \<and>
   (\<exists>s1 s2. instantSearch
               \<lparr>incremental_Searcher = Inr (\<lambda>key n. Inr []), fts_hwdphr_async = True,
                normalize_index_key = (\<lambda>key. key)\<rparr> False True
               (init_state\<lparr>lineEditSearch_text := ''examp*e''\<rparr>) = Inr s1
     \<and> onTimerAutoFullSearchTimeout
           \<lparr>incremental_Searcher = Inr (\<lambda>key n. Inr []), fts_hwdphr_async = True,
            normalize_index_key = (\<lambda>key. key)\<rparr>
           (timer_fired TimerAutoFTS s1) = Inr s2
     \<and> filter (\<lambda>x. case x of IncrementalSearch key n \<Rightarrow> True | FtsUpdateQuery q \<Rightarrow> True
                     | _ \<Rightarrow> False) (trace s2) =
         [FtsUpdateQuery
            \<lparr>query_str1 = ''examp*e'', query_str2 = None,
             itemtypes = [''hm''], limit = Some 10001, merge = True\<rparr>])"
proof -
  let ?e = "\<lparr>incremental_Searcher = Inr (\<lambda>key n. Inr []), fts_hwdphr_async = True,
            normalize_index_key = (\<lambda>key. key)\<rparr>"
  let ?s = "init_state\<lparr>lineEditSearch_text := ''examp*e''\<rparr>"
  have w: "CHR ''*'' \<in> set (lineEditSearch_text ?s) \<or> CHR ''?'' \<in> set (lineEditSearch_text ?s)"
    by simp
  have t: "trace ?s = []" by (simp add: init_state_def)
  from instantSearch_wildcard_query [OF w, of ?e False True]
  obtain s1 s2 where
    R: "instantSearch ?e False True ?s = Inr s1"
    and A: "trace s1 = trace ?s @ TimerStop TimerSearchingLabel # [FtsCancel]
         @ [TimerStop TimerUpdateIndex, TimerStop TimerAutoFTS, TimerStop TimerSpellCorrection,
            TimerStart TimerAutoFTS 0, TimerStart TimerUpdateIndex (incr_delay_func 0)]"
    and C: "onTimerAutoFullSearchTimeout ?e (timer_fired TimerAutoFTS s1) = Inr s2"
    and D: "trace s2 = trace s1 @
               [TimerStart TimerSearchingLabel 200,
                FtsUpdateQuery
                  \<lparr>query_str1 = ''examp*e'', query_str2 = None,
                   itemtypes = [''hm''], limit = Some 10001, merge = True\<rparr>]"
    by auto
  have "filter (\<lambda>x. case x of IncrementalSearch key n \<Rightarrow> True | FtsUpdateQuery q \<Rightarrow> True
                     | _ \<Rightarrow> False) (trace s2) =
         [FtsUpdateQuery
            \<lparr>query_str1 = ''examp*e'', query_str2 = None,
             itemtypes = [''hm''], limit = Some 10001, merge = True\<rparr>]"
    by (simp add: D A t)
  with R C show ?thesis by auto
qed


section \<open>An absent incremental index\<close>

text \<open>
  C7 says that \<^verbatim>\<open>_incremental_search\<close> never raises, every failure of the lookup
  being turned into \<^verbatim>\<open>None\<close>. Its \<^verbatim>\<open>except\<close> clause names two classes and no other:
  here the lookup raises a \<^verbatim>\<open>ValueError\<close>, which leaves \<^verbatim>\<open>_incremental_search\<close> and
  then \<^verbatim>\<open>_instantSearch\<close>, before an advisory is shown or a commit scheduled.
\<close>

theorem uncaught_lookup_error_propagates:
  "incremental_search
     \<lparr>incremental_Searcher = Inr (\<lambda>key n. Inl (OtherError ''ValueError'')),
      fts_hwdphr_async = True, normalize_index_key = (\<lambda>key. key)\<rparr>
     ''cat'' (init_state\<lparr>lineEditSearch_text := ''cat''\<rparr>) = Inl (OtherError ''ValueError'')
   \<and> instantSearch
     \<lparr>incremental_Searcher = Inr (\<lambda>key n. Inl (OtherError ''ValueError'')),
      fts_hwdphr_async = True, normalize_index_key = (\<lambda>key. key)\<rparr>
     False True (init_state\<lparr>lineEditSearch_text := ''cat''\<rparr>) = Inl (OtherError ''ValueError'')"
  by (simp add: instantSearch_def incremental_search_eq is_index_failure_def contains_wild_def
        Let_def)

text \<open>
  C7 as the code has it: for every key \<^verbatim>\<open>_incremental_search\<close> returns \<^verbatim>\<open>None\<close> exactly
  when opening the index or the lookup raises \<^verbatim>\<open>EnvironmentError\<close> or
  \<^verbatim>\<open>incremental.IndexError\<close>, returns the results of the lookup when there are some,
  and raises exactly when one of the two raises an exception of another class,
  which it passes on. When it returns \<^verbatim>\<open>None\<close> for the query in the search box,
  \<^verbatim>\<open>_instantSearch\<close> shows the one-line advisory in the web view, once, leaves both
  results absent and starts the update timer with delay 0; the commit that follows
  returns, and leaves an empty list. When it raises, so does \<^verbatim>\<open>_instantSearch\<close>.
\<close>

theorem incremental_search_absent:
  "((\<exists>s6. incremental_search e key s = Inr (None, s6)) \<longleftrightarrow>
      (\<exists>failure. (failure = EnvironmentError \<or> failure = Incremental_IndexError) \<and>
         (incremental_Searcher e = Inl failure \<or>
          (\<exists>obj. incremental_Searcher e = Inr obj \<and> obj key INCREMENTAL_LIMIT = Inl failure))))
   \<and> ((\<exists>s6. incremental_search e key s = Inr (Some rs, s6)) \<longleftrightarrow>
         (\<exists>obj. incremental_Searcher e = Inr obj \<and> obj key INCREMENTAL_LIMIT = Inr rs))
   \<and> (incremental_search e key s = Inl exc \<longleftrightarrow>
         exc \<noteq> EnvironmentError \<and> exc \<noteq> Incremental_IndexError \<and>
         (incremental_Searcher e = Inl exc \<or>
          (\<exists>obj. incremental_Searcher e = Inr obj \<and> obj key INCREMENTAL_LIMIT = Inl exc)))
   \<and> (lineEditSearch_text s \<noteq> [] \<and> \<not> contains_wild (lineEditSearch_text s) \<and>
       (\<exists>s6. incremental_search e (lineEditSearch_text s) s = Inr (None, s6)) \<longrightarrow>
         (\<exists>s1. instantSearch e pending delay s = Inr s1
           \<and> trace s1 =
               trace s @ TimerStop TimerSearchingLabel
                 # (if fts_hwdphr_async e then [FtsCancel] else [])
                 @ [TimerStop TimerUpdateIndex, TimerStop TimerAutoFTS,
                    TimerStop TimerSpellCorrection]
                 @ (case incremental_Searcher e of
                      Inl failure \<Rightarrow> []
                    | Inr obj \<Rightarrow> [IncrementalSearch (lineEditSearch_text s) INCREMENTAL_LIMIT])
                 @ [WebViewSetHtml index_advisory, TimerStart TimerUpdateIndex 0]
           \<and> timers s1 = (\<lambda>t. None)(TimerUpdateIndex := Some 0)
           \<and> incr_results s1 = None \<and> fts_results s1 = None
           \<and> (\<forall>s'. updateIndex e (timer_fired TimerUpdateIndex s1) = Inr s' \<longrightarrow>
                 found_items s' = Some [])
           \<and> (listWidgetIndex_currentRow s = - 1 \<or>
               (\<exists>found. found_items s = Some found \<and> 0 \<le> listWidgetIndex_currentRow s \<and>
                  listWidgetIndex_currentRow s < int (length found)) \<longrightarrow>
               (\<exists>s'. updateIndex e (timer_fired TimerUpdateIndex s1) = Inr s'))))
   \<and> (lineEditSearch_text s \<noteq> [] \<and> \<not> contains_wild (lineEditSearch_text s) \<and>
       incremental_search e (lineEditSearch_text s) s = Inl exc \<longrightarrow>
         instantSearch e pending delay s = Inl exc)"
proof -
  have A: "(\<exists>s6. incremental_search e key s = Inr (None, s6)) \<longleftrightarrow>
      (\<exists>failure. (failure = EnvironmentError \<or> failure = Incremental_IndexError) \<and>
         (incremental_Searcher e = Inl failure \<or>
          (\<exists>obj. incremental_Searcher e = Inr obj \<and> obj key INCREMENTAL_LIMIT = Inl failure)))"
    by (auto simp add: incremental_search_eq is_index_failure_def split: sum.splits if_splits)
  have B: "(\<exists>s6. incremental_search e key s = Inr (Some rs, s6)) \<longleftrightarrow>
         (\<exists>obj. incremental_Searcher e = Inr obj \<and> obj key INCREMENTAL_LIMIT = Inr rs)"
    by (auto simp add: incremental_search_eq is_index_failure_def split: sum.splits if_splits)
  have B': "incremental_search e key s = Inl exc \<longleftrightarrow>
         exc \<noteq> EnvironmentError \<and> exc \<noteq> Incremental_IndexError \<and>
         (incremental_Searcher e = Inl exc \<or>
          (\<exists>obj. incremental_Searcher e = Inr obj \<and> obj key INCREMENTAL_LIMIT = Inl exc))"
    by (auto simp add: incremental_search_eq is_index_failure_def split: sum.splits if_splits)
  have C: "\<exists>s1. instantSearch e pending delay s = Inr s1
           \<and> trace s1 =
               trace s @ TimerStop TimerSearchingLabel
                 # (if fts_hwdphr_async e then [FtsCancel] else [])
                 @ [TimerStop TimerUpdateIndex, TimerStop TimerAutoFTS,
                    TimerStop TimerSpellCorrection]
                 @ (case incremental_Searcher e of
                      Inl failure \<Rightarrow> []
                    | Inr obj \<Rightarrow> [IncrementalSearch (lineEditSearch_text s) INCREMENTAL_LIMIT])
                 @ [WebViewSetHtml index_advisory, TimerStart TimerUpdateIndex 0]
           \<and> timers s1 = (\<lambda>t. None)(TimerUpdateIndex := Some 0)
           \<and> incr_results s1 = None \<and> fts_results s1 = None
           \<and> (\<forall>s'. updateIndex e (timer_fired TimerUpdateIndex s1) = Inr s' \<longrightarrow>
                 found_items s' = Some [])
           \<and> (listWidgetIndex_currentRow s = - 1 \<or>
               (\<exists>found. found_items s = Some found \<and> 0 \<le> listWidgetIndex_currentRow s \<and>
                  listWidgetIndex_currentRow s < int (length found)) \<longrightarrow>
               (\<exists>s'. updateIndex e (timer_fired TimerUpdateIndex s1) = Inr s'))"
    if h: "lineEditSearch_text s \<noteq> []" "\<not> contains_wild (lineEditSearch_text s)"
      "\<exists>s6. incremental_search e (lineEditSearch_text s) s = Inr (None, s6)"
  proof -
    from h(3) obtain s6 where "incremental_search e (lineEditSearch_text s) s = Inr (None, s6)" ..
    from incremental_search_Inr [OF this, of "reset_search e pending s"]
    obtain s6' where
      l: "incremental_search e (lineEditSearch_text s) (reset_search e pending s) = Inr (None, s6')"
      and f: "incr_results s6' = incr_results (reset_search e pending s)"
        "fts_results s6' = fts_results (reset_search e pending s)"
        "found_items s6' = found_items (reset_search e pending s)"
        "listWidgetIndex_currentRow s6' = listWidgetIndex_currentRow (reset_search e pending s)"
        "timers s6' = timers (reset_search e pending s)"
        "trace s6' =
           trace (reset_search e pending s) @
             (case incremental_Searcher e of
                Inl exc \<Rightarrow> []
              | Inr obj \<Rightarrow> [IncrementalSearch (lineEditSearch_text s) INCREMENTAL_LIMIT])"
      by blast
    define s1 where "s1 = timer_start TimerUpdateIndex 0 (emit (WebViewSetHtml index_advisory) s6')"
    note s1 = s1_def
    have R: "instantSearch e pending delay s = Inr s1"
      unfolding s1 by (rule instantSearch_absent [OF h(1,2) l])
    have C1: "trace s1 =
             trace s @ TimerStop TimerSearchingLabel
               # (if fts_hwdphr_async e then [FtsCancel] else [])
               @ [TimerStop TimerUpdateIndex, TimerStop TimerAutoFTS,
                  TimerStop TimerSpellCorrection]
               @ (case incremental_Searcher e of
                    Inl failure \<Rightarrow> []
                  | Inr obj \<Rightarrow> [IncrementalSearch (lineEditSearch_text s) INCREMENTAL_LIMIT])
               @ [WebViewSetHtml index_advisory, TimerStart TimerUpdateIndex 0]"
      by (simp add: s1 timer_start_fields emit_fields f reset_search_trace)
    have C2: "timers s1 = (\<lambda>t. None)(TimerUpdateIndex := Some 0)"
      by (simp add: s1 timer_start_fields emit_fields f reset_search_timers)
    have C3: "incr_results s1 = None" "fts_results s1 = None"
      by (simp_all add: s1 timer_start_fields emit_fields f reset_search_fields)
    have C4: "found_items s' = Some []"
      if "updateIndex e (timer_fired TimerUpdateIndex s1) = Inr s'" for s'
      using updateIndex_nothing_found(1) [OF _ _ that] C3
      by (simp add: timer_fired_fields)
    have C5: "\<exists>s'. updateIndex e (timer_fired TimerUpdateIndex s1) = Inr s'"
      if "listWidgetIndex_currentRow s = - 1 \<or>
         (\<exists>found. found_items s = Some found \<and> 0 \<le> listWidgetIndex_currentRow s \<and>
            listWidgetIndex_currentRow s < int (length found))"
      using that
      by (intro updateIndex_returns)
         (simp add: timer_fired_fields s1 timer_start_fields emit_fields f reset_search_fields)
    from R C1 C2 C3 C4 C5 show ?thesis by blast
  qed
  have D: "instantSearch e pending delay s = Inl exc"
    if h: "lineEditSearch_text s \<noteq> []" "\<not> contains_wild (lineEditSearch_text s)"
      "incremental_search e (lineEditSearch_text s) s = Inl exc"
    by (rule instantSearch_raises [OF h(1,2) incremental_search_Inl [OF h(3)]])
  from A B B' C D show ?thesis by blast
qed

theorem incremental_search_absent_witness:
  "''cat'' \<noteq> [] \<and> \<not> contains_wild ''cat''
   \<and> (\<exists>s6. incremental_search
          \<lparr>incremental_Searcher = Inr (\<lambda>key n. Inl Incremental_IndexError),
           fts_hwdphr_async = True, normalize_index_key = (\<lambda>key. key)\<rparr>
          ''cat'' (init_state\<lparr>lineEditSearch_text := ''cat''\<rparr>) = Inr (None, s6))
   \<and> (\<exists>s1 s'. instantSearch
          \<lparr>incremental_Searcher = Inr (\<lambda>key n. Inl Incremental_IndexError),
           fts_hwdphr_async = True, normalize_index_key = (\<lambda>key. key)\<rparr>
          False True (init_state\<lparr>lineEditSearch_text := ''cat''\<rparr>) = Inr s1
        \<and> WebViewSetHtml index_advisory \<in> set (trace s1)
        \<and> updateIndex
          \<lparr>incremental_Searcher = Inr (\<lambda>key n. Inl Incremental_IndexError),
           fts_hwdphr_async = True, normalize_index_key = (\<lambda>key. key)\<rparr>
          (timer_fired TimerUpdateIndex s1) = Inr s'
        \<and> found_items s' = Some [])"
proof -
  let ?e = "\<lparr>incremental_Searcher = Inr (\<lambda>key n. Inl Incremental_IndexError),
           fts_hwdphr_async = True, normalize_index_key = (\<lambda>key. key)\<rparr>"
  let ?s = "init_state\<lparr>lineEditSearch_text := ''cat''\<rparr>"
  have a: "\<exists>s6. incremental_search ?e ''cat'' ?s = Inr (None, s6)"
    by (simp add: incremental_search_eq is_index_failure_def)
  have w: "\<not> contains_wild ''cat''" by (simp add: contains_wild_def)
  have r: "listWidgetIndex_currentRow ?s = - 1" by (simp add: init_state_def)
  have t: "lineEditSearch_text ?s = ''cat''" by simp
  from incremental_search_absent
      [where e = ?e and key = "''cat''" and s = ?s and pending = False and delay = True
         and rs = "[]" and exc = EnvironmentError]
    a w r t
  obtain s1 where
    R: "instantSearch ?e False True ?s = Inr s1"
    and A: "trace s1 =
               trace ?s @ TimerStop TimerSearchingLabel # [FtsCancel]
                 @ [TimerStop TimerUpdateIndex, TimerStop TimerAutoFTS,
                    TimerStop TimerSpellCorrection]
                 @ [IncrementalSearch ''cat'' INCREMENTAL_LIMIT]
                 @ [WebViewSetHtml index_advisory, TimerStart TimerUpdateIndex 0]"
    and C: "\<forall>s'. updateIndex ?e (timer_fired TimerUpdateIndex s1) = Inr s' \<longrightarrow>
                 found_items s' = Some []"
    and D: "\<exists>s'. updateIndex ?e (timer_fired TimerUpdateIndex s1) = Inr s'"
    by auto
  have "WebViewSetHtml index_advisory \<in> set (trace s1)"
    by (simp add: A)
  with R C D a w show ?thesis by blast
qed


section \<open>Completion of the full-text search\<close>

text \<open>
  C5 says that a full-text completion commits after the adaptive delay, except in
  the advanced-search flow. The code restarts the update timer with delay 0 on
  every completion that is not superseded, with merge on as with merge off: here
  it does so where the adaptive delay for the incremental results at hand is 30.
\<close>

theorem onAsyncFTSearchFinished_delay_is_zero:
  "timers (onAsyncFTSearchFinished (Some (True, []))
             (init_state\<lparr>incr_results := Some []\<rparr>)) TimerUpdateIndex = Some 0
   \<and> incr_delay_func (int (length ([] :: result_item list))) = 30"
proof -
  have "incr_delay_func 0 = 30" by code_simp
  then show ?thesis
    by (simp add: onAsyncFTSearchFinished_def timer_start_fields Let_def)
qed

text \<open>
  C5 as the code has it: a completion that is not superseded stores the results
  (and drops the incremental results when merge is off, as in the advanced-search
  flow) and restarts the update timer with delay 0; a superseded completion
  changes neither the results nor the update timer. The adaptive delay is the one
  \<^verbatim>\<open>_instantSearch\<close> gives to the commit of the incremental results, from their
  number, when it is called with \<^verbatim>\<open>delay\<close> on.
\<close>

theorem onAsyncFTSearchFinished_commits_at_once:
  assumes "s1 = onAsyncFTSearchFinished (Some (mrg, result)) s"
    and "s0 = onAsyncFTSearchFinished None s"
  shows "fts_results s1 = Some result
     \<and> incr_results s1 = (if mrg then incr_results s else None)
     \<and> timers s1 TimerUpdateIndex = Some 0
     \<and> trace s1 = trace s @ [TimerStop TimerSearchingLabel, TimerStart TimerUpdateIndex 0]
     \<and> fts_results s0 = fts_results s \<and> incr_results s0 = incr_results s
     \<and> timers s0 TimerUpdateIndex = timers s TimerUpdateIndex
     \<and> trace s0 = trace s @ [TimerStop TimerSearchingLabel]
     \<and> (lineEditSearch_text s \<noteq> [] \<and> \<not> contains_wild (lineEditSearch_text s) \<and>
         (\<exists>s6. incremental_search e (lineEditSearch_text s) s = Inr (Some rs, s6)) \<longrightarrow>
           (\<exists>s2. instantSearch e pending delay s = Inr s2 \<and>
              incr_results s2 = Some rs \<and>
              timers s2 TimerUpdateIndex =
                Some (if delay then incr_delay_func (int (length rs)) else 0)))"
proof -
  have A: "fts_results s1 = Some result"
    "incr_results s1 = (if mrg then incr_results s else None)"
    "timers s1 TimerUpdateIndex = Some 0"
    "trace s1 = trace s @ [TimerStop TimerSearchingLabel, TimerStart TimerUpdateIndex 0]"
    by (simp_all add: assms(1) onAsyncFTSearchFinished_def timer_start_fields timer_stop_def
          emit_def Let_def)
  have B: "fts_results s0 = fts_results s" "incr_results s0 = incr_results s"
    "timers s0 TimerUpdateIndex = timers s TimerUpdateIndex"
    "trace s0 = trace s @ [TimerStop TimerSearchingLabel]"
    by (simp_all add: assms(2) onAsyncFTSearchFinished_def timer_stop_def emit_def Let_def)
  have C: "\<exists>s2. instantSearch e pending delay s = Inr s2 \<and>
              incr_results s2 = Some rs \<and>
              timers s2 TimerUpdateIndex =
                Some (if delay then incr_delay_func (int (length rs)) else 0)"
    if h: "lineEditSearch_text s \<noteq> []" "\<not> contains_wild (lineEditSearch_text s)"
      "\<exists>s6. incremental_search e (lineEditSearch_text s) s = Inr (Some rs, s6)"
  proof -
    from h(3) obtain s6 where
      "incremental_search e (lineEditSearch_text s) s = Inr (Some rs, s6)" ..
    from incremental_search_Inr [OF this, of "reset_search e pending s"]
    obtain s6' where
      l: "incremental_search e (lineEditSearch_text s) (reset_search e pending s) =
            Inr (Some rs, s6')"
      by blast
    show ?thesis
      by (simp add: instantSearch_found [OF h(1,2) l] timer_start_fields)
  qed
  from A B C show ?thesis by blast
qed

theorem onAsyncFTSearchFinished_commits_at_once_witness:
  "timers (onAsyncFTSearchFinished (Some (False, []))
            (init_state\<lparr>incr_results := Some [], lineEditSearch_text := ''cat''\<rparr>))
     TimerUpdateIndex = Some 0
   \<and> incr_results (onAsyncFTSearchFinished (Some (False, []))
            (init_state\<lparr>incr_results := Some [], lineEditSearch_text := ''cat''\<rparr>)) = None
   \<and> ''cat'' \<noteq> [] \<and> \<not> contains_wild ''cat''
   \<and> (\<exists>s2. instantSearch
          \<lparr>incremental_Searcher = Inr (\<lambda>key n. Inr []),
           fts_hwdphr_async = True, normalize_index_key = (\<lambda>key. key)\<rparr> False True
          (init_state\<lparr>incr_results := Some [], lineEditSearch_text := ''cat''\<rparr>) = Inr s2
        \<and> timers s2 TimerUpdateIndex = Some (incr_delay_func 0))"
proof -
  let ?e = "\<lparr>incremental_Searcher = Inr (\<lambda>key n. Inr []),
           fts_hwdphr_async = True, normalize_index_key = (\<lambda>key. key)\<rparr>"
  let ?s = "init_state\<lparr>incr_results := Some [], lineEditSearch_text := ''cat''\<rparr>"
  have a: "\<exists>s6. incremental_search ?e ''cat'' ?s = Inr (Some [], s6)"
    by (simp add: incremental_search_eq)
  have w: "\<not> contains_wild ''cat''" by (simp add: contains_wild_def)
  have t: "lineEditSearch_text ?s = ''cat''" by simp
  from onAsyncFTSearchFinished_commits_at_once
      [where mrg = False and result = "[]" and s = ?s and e = ?e and pending = False
         and delay = True and rs = "[]", OF refl refl]
    a w t
  show ?thesis by auto
qed


section \<open>The first row that satisfies a condition\<close>

lemma find_row_None: "find_row cond items row = None \<longleftrightarrow> (\<forall>item\<in>set items. \<not> cond item)"
  by (induction items arbitrary: row) auto

lemma find_row_SomeD:
  "find_row cond items row = Some r \<Longrightarrow>
     \<exists>i<length items. r = row + int i \<and> cond (items ! i) \<and> (\<forall>j<i. \<not> cond (items ! j))"
proof (induction items arbitrary: row)
  case Nil
  then show ?case by simp
next
  case (Cons item items)
  show ?case
  proof (cases "cond item")
    case True
    with Cons.prems have "r = row" by simp
    with True show ?thesis by (intro exI [of _ 0]) simp
  next
    case False
    with Cons.prems have "find_row cond items (row + 1) = Some r" by simp
    from Cons.IH [OF this] obtain i where
      i: "i < length items" "r = row + 1 + int i" "cond (items ! i)"
         "\<forall>j<i. \<not> cond (items ! j)"
      by blast
    have "\<forall>j<Suc i. \<not> cond ((item # items) ! j)"
    proof (intro allI impI)
      fix j assume "j < Suc i"
      then show "\<not> cond ((item # items) ! j)"
        using False i(4) by (cases j) simp_all
    qed
    with i show ?thesis by (intro exI [of _ "Suc i"]) simp
  qed
qed

lemma find_row_Some_ex:
  "\<exists>item\<in>set items. cond item \<Longrightarrow> \<exists>r. find_row cond items row = Some r"
  using find_row_None [of cond items row] by (cases "find_row cond items row") auto

lemma lw_setCurrentRow_fields:
  "listWidgetIndex_currentRow (lw_setCurrentRow row s) =
     (if 0 \<le> row \<and> row < int (listWidgetIndex_count s) then row else - 1)"
  "listWidgetIndex_count (lw_setCurrentRow row s) = listWidgetIndex_count s"
  "found_items (lw_setCurrentRow row s) = found_items s"
  "trace (lw_setCurrentRow row s) = trace s @ [ListSetCurrentRow row]"
  "lineEditSearch_hasFocus (lw_setCurrentRow row s) = lineEditSearch_hasFocus s"
  by (simp_all add: lw_setCurrentRow_def emit_def)

lemma lw_setFocus_fields:
  "listWidgetIndex_currentRow (lw_setFocus s) = listWidgetIndex_currentRow s"
  "listWidgetIndex_count (lw_setFocus s) = listWidgetIndex_count s"
  "found_items (lw_setFocus s) = found_items s"
  "trace (lw_setFocus s) = trace s @ [ListSetFocus]"
  "lineEditSearch_hasFocus (lw_setFocus s) = False"
  by (simp_all add: lw_setFocus_def emit_def)


section \<open>Moving the selection\<close>

text \<open>
  C10: with a non-empty list, a current row \<open>r\<close> and the focus not in the search
  box, \<^verbatim>\<open>selectItemRelative(rel)\<close> leaves the current row at
  \<open>max(0, min(len - 1, r + rel))\<close>, a row of the list whatever \<open>rel\<close> is; when that
  is the row \<open>r\<close> itself nothing changes, and otherwise the list takes the focus
  and the new row.
\<close>

theorem selectItemRelative_clamps_row:
  assumes "found_items s = Some found" and "found \<noteq> []"
    and "listWidgetIndex_count s = length found"
    and "listWidgetIndex_currentRow s = r" and "r \<noteq> - 1"
    and "\<not> lineEditSearch_hasFocus s"
    and "row = max 0 (min (int (length found) - 1) (r + rel))"
  shows "listWidgetIndex_currentRow (selectItemRelative e rel s) = row
     \<and> 0 \<le> row \<and> row < int (length found)
     \<and> (row = r \<longrightarrow> selectItemRelative e rel s = s)
     \<and> (row \<noteq> r \<longrightarrow> trace (selectItemRelative e rel s) =
           trace s @ [ListSetFocus, ListSetCurrentRow row])"
proof -
  from assms(2) obtain x xs where found: "found = x # xs" by (cases found) auto
  have bounds: "0 \<le> row" "row < int (length found)"
    using assms(2,7) by (simp_all add: found)
  have sel: "selectItemRelative e rel s =
      (if row \<noteq> r then lw_setCurrentRow row (lw_setFocus s) else s)"
    using assms(1,4,5,6,7) by (simp add: selectItemRelative_def found Let_def)
  have A: "listWidgetIndex_currentRow (selectItemRelative e rel s) = row"
    using bounds assms(3,4) by (simp add: sel lw_setCurrentRow_fields lw_setFocus_fields)
  have B: "row = r \<longrightarrow> selectItemRelative e rel s = s"
    by (simp add: sel)
  have C: "row \<noteq> r \<longrightarrow> trace (selectItemRelative e rel s) =
           trace s @ [ListSetFocus, ListSetCurrentRow row]"
    by (simp add: sel lw_setCurrentRow_fields lw_setFocus_fields)
  from A bounds B C show ?thesis by blast
qed

theorem selectItemRelative_clamps_row_witness:
  "listWidgetIndex_currentRow
     (selectItemRelative
        \<lparr>incremental_Searcher = Inl EnvironmentError, fts_hwdphr_async = False,
         normalize_index_key = (\<lambda>key. key)\<rparr> 5
        (init_state\<lparr>found_items := Some
            [\<lparr>text_getter = ''cat'', path_getter = ''/1'', sortkey_getter = ''cat'', prio_getter = 0\<rparr>,
             \<lparr>text_getter = ''cats'', path_getter = ''/2'', sortkey_getter = ''cats'', prio_getter = 0\<rparr>],
           listWidgetIndex_count := 2, listWidgetIndex_currentRow := 0\<rparr>)) = 1"
proof -
  let ?found = "[\<lparr>text_getter = ''cat'', path_getter = ''/1'', sortkey_getter = ''cat'', prio_getter = 0\<rparr>,
             \<lparr>text_getter = ''cats'', path_getter = ''/2'', sortkey_getter = ''cats'', prio_getter = 0\<rparr>]"
  let ?s = "init_state\<lparr>found_items := Some ?found,
           listWidgetIndex_count := 2, listWidgetIndex_currentRow := 0\<rparr>"
  have "found_items ?s = Some ?found" "?found \<noteq> []" "listWidgetIndex_count ?s = length ?found"
    "listWidgetIndex_currentRow ?s = 0" "(0::int) \<noteq> - 1" "\<not> lineEditSearch_hasFocus ?s"
    "(1::int) = max 0 (min (int (length ?found) - 1) (0 + 5))"
    by (simp_all add: init_state_def)
  from selectItemRelative_clamps_row [OF this] show ?thesis by simp
qed


section \<open>Keeping the selection across a commit\<close>








section \<open>The fallback selection\<close>

lemma most_similar_none:
  "\<forall>item\<in>set items. quick_ratio text (sortkey_getter item) \<le> m \<Longrightarrow>
     most_similar text items r m row = row"
  by (induction items arbitrary: r) (auto simp add: Let_def)

lemma most_similar_some:
  "\<exists>item\<in>set items. m < quick_ratio text (sortkey_getter item) \<Longrightarrow>
     \<exists>i<length items. most_similar text items r m row = r + int i
       \<and> m < quick_ratio text (sortkey_getter (items ! i))
       \<and> (\<forall>j<length items. quick_ratio text (sortkey_getter (items ! j))
              \<le> quick_ratio text (sortkey_getter (items ! i)))
       \<and> (\<forall>j<i. quick_ratio text (sortkey_getter (items ! j))
              < quick_ratio text (sortkey_getter (items ! i)))"
proof (induction items arbitrary: r m row)
  case Nil
  then show ?case by simp
next
  case (Cons x xs)
  define Q where "Q item = quick_ratio text (sortkey_getter item)" for item :: result_item
  define q where "q = Q x"
  show ?case unfolding Q_def [symmetric]
  proof (cases "m < q")
    case True
    then have step: "most_similar text (x # xs) r m row = most_similar text xs (r + 1) q r"
      by (simp add: q_def Q_def Let_def)
    show "\<exists>i<length (x # xs). most_similar text (x # xs) r m row = r + int i
       \<and> m < Q ((x # xs) ! i)
       \<and> (\<forall>j<length (x # xs). Q ((x # xs) ! j) \<le> Q ((x # xs) ! i))
       \<and> (\<forall>j<i. Q ((x # xs) ! j) < Q ((x # xs) ! i))"
    proof (cases "\<exists>item\<in>set xs. q < Q item")
      case True
      then have "\<exists>item\<in>set xs. q < quick_ratio text (sortkey_getter item)"
        by (simp add: Q_def)
      from Cons.IH [OF this, of "r + 1" r] obtain i where
        i: "i < length xs" "most_similar text xs (r + 1) q r = r + 1 + int i"
           "q < Q (xs ! i)" "\<forall>j<length xs. Q (xs ! j) \<le> Q (xs ! i)"
           "\<forall>j<i. Q (xs ! j) < Q (xs ! i)"
        unfolding Q_def [symmetric] by blast
      have a: "\<forall>j<length (x # xs). Q ((x # xs) ! j) \<le> Q ((x # xs) ! Suc i)"
      proof (intro allI impI)
        fix j assume "j < length (x # xs)"
        then show "Q ((x # xs) ! j) \<le> Q ((x # xs) ! Suc i)"
          using i(3,4) by (cases j) (simp_all add: q_def)
      qed
      have b: "\<forall>j<Suc i. Q ((x # xs) ! j) < Q ((x # xs) ! Suc i)"
      proof (intro allI impI)
        fix j assume "j < Suc i"
        then show "Q ((x # xs) ! j) < Q ((x # xs) ! Suc i)"
          using i(3,5) by (cases j) (simp_all add: q_def)
      qed
      from \<open>m < q\<close> i(3) have c: "m < Q ((x # xs) ! Suc i)" by simp
      from i(1,2) step a b c show ?thesis
        by (intro exI [of _ "Suc i"]) simp
    next
      case False
      then have le: "\<forall>item\<in>set xs. Q item \<le> q" by auto
      then have "most_similar text xs (r + 1) q r = r"
        unfolding Q_def by (rule most_similar_none)
      with step have res: "most_similar text (x # xs) r m row = r + int 0" by simp
      have a: "\<forall>j<length (x # xs). Q ((x # xs) ! j) \<le> Q ((x # xs) ! 0)"
      proof (intro allI impI)
        fix j assume "j < length (x # xs)"
        then show "Q ((x # xs) ! j) \<le> Q ((x # xs) ! 0)"
          using le by (cases j) (simp_all add: q_def)
      qed
      from res a \<open>m < q\<close> show ?thesis
        by (intro exI [of _ 0]) (simp add: q_def)
    qed
  next
    case False
    then have step: "most_similar text (x # xs) r m row = most_similar text xs (r + 1) m row"
      by (simp add: q_def Q_def Let_def)
    from Cons.prems False have "\<exists>item\<in>set xs. m < quick_ratio text (sortkey_getter item)"
      by (auto simp add: q_def Q_def)
    from Cons.IH [OF this, of "r + 1" row] obtain i where
      i: "i < length xs" "most_similar text xs (r + 1) m row = r + 1 + int i"
         "m < Q (xs ! i)" "\<forall>j<length xs. Q (xs ! j) \<le> Q (xs ! i)"
         "\<forall>j<i. Q (xs ! j) < Q (xs ! i)"
      unfolding Q_def [symmetric] by blast
    from False i(3) have lt: "q < Q (xs ! i)" by simp
    have a: "\<forall>j<length (x # xs). Q ((x # xs) ! j) \<le> Q ((x # xs) ! Suc i)"
    proof (intro allI impI)
      fix j assume "j < length (x # xs)"
      then show "Q ((x # xs) ! j) \<le> Q ((x # xs) ! Suc i)"
        using lt i(4) by (cases j) (simp_all add: q_def)
    qed
    have b: "\<forall>j<Suc i. Q ((x # xs) ! j) < Q ((x # xs) ! Suc i)"
    proof (intro allI impI)
      fix j assume "j < Suc i"
      then show "Q ((x # xs) ! j) < Q ((x # xs) ! Suc i)"
        using lt i(5) by (cases j) (simp_all add: q_def)
    qed
    from i(1,2,3) step a b
    show "\<exists>i<length (x # xs). most_similar text (x # xs) r m row = r + int i
       \<and> m < Q ((x # xs) ! i)
       \<and> (\<forall>j<length (x # xs). Q ((x # xs) ! j) \<le> Q ((x # xs) ! i))
       \<and> (\<forall>j<i. Q ((x # xs) ! j) < Q ((x # xs) ! i))"
      by (intro exI [of _ "Suc i"]) simp
  qed
qed

lemma fallback_selection_eq:
  assumes "found_items s = Some found" and "found \<noteq> []"
    and "listWidgetIndex_currentRow s = - 1 \<or> lineEditSearch_hasFocus s"
    and "text = py_lower (normalize_index_key e (lineEditSearch_text s))"
  shows "selectItemRelative e rel s =
     lw_setCurrentRow
       (case find_row (\<lambda>item. startswith (py_lower (sortkey_getter item)) text) found 0 of
          Some row \<Rightarrow> row
        | None \<Rightarrow> most_similar text found 0 0 (- 1))
       (lw_setFocus s)"
proof -
  from assms(2) obtain x xs where found: "found = x # xs" by (cases found) auto
  show ?thesis
    using assms(1,3,4)
    by (simp add: selectItemRelative_def found Let_def split: option.splits)
qed

text \<open>
  C9: where no sort key starts with the query, the fallback is to select the item
  with the highest quick ratio, the first of them on a tie. The loop that looks
  for it, under the comment \<^verbatim>\<open># find the most similar item\<close>, starts from
  \<open>row = -1\<close> and \<open>max_ratio = 0\<close> and takes a row only on \<open>ratio > max_ratio\<close>, so it
  misses every item when all the ratios are 0, and \<open>-1\<close> goes to \<^verbatim>\<open>setCurrentRow\<close>
  unchecked. Here the list holds the one item \<open>go\<close> and the search box \<open>went\<close>: the
  item with the highest ratio is that of row 0, and the code calls
  \<^verbatim>\<open>setCurrentRow(-1)\<close>, which leaves the list without a current row.
\<close>

theorem selectItemRelative_nothing_similar:
  "listWidgetIndex_currentRow
     (selectItemRelative
        \<lparr>incremental_Searcher = Inl EnvironmentError, fts_hwdphr_async = False,
         normalize_index_key = (\<lambda>key. key)\<rparr> 0
        (init_state\<lparr>found_items := Some
            [\<lparr>text_getter = ''go'', path_getter = ''/1'', sortkey_getter = ''go'', prio_getter = 0\<rparr>],
           listWidgetIndex_count := 1, lineEditSearch_text := ''went''\<rparr>)) = - 1
   \<and> trace
     (selectItemRelative
        \<lparr>incremental_Searcher = Inl EnvironmentError, fts_hwdphr_async = False,
         normalize_index_key = (\<lambda>key. key)\<rparr> 0
        (init_state\<lparr>found_items := Some
            [\<lparr>text_getter = ''go'', path_getter = ''/1'', sortkey_getter = ''go'', prio_getter = 0\<rparr>],
           listWidgetIndex_count := 1, lineEditSearch_text := ''went''\<rparr>))
     = [ListSetFocus, ListSetCurrentRow (- 1)]
   \<and> \<not> startswith (py_lower ''go'') (py_lower ''went'')
   \<and> quick_ratio (py_lower ''went'') ''go'' = 0"
proof -
  let ?e = "\<lparr>incremental_Searcher = Inl EnvironmentError, fts_hwdphr_async = False,
         normalize_index_key = (\<lambda>key. key)\<rparr>"
  let ?go = "\<lparr>text_getter = ''go'', path_getter = ''/1'', sortkey_getter = ''go'', prio_getter = 0\<rparr>"
  let ?s = "init_state\<lparr>found_items := Some [?go],
           listWidgetIndex_count := 1, lineEditSearch_text := ''went''\<rparr>"
  have l: "py_lower ''went'' = ''went''" by code_simp
  have p: "\<not> startswith (py_lower ''go'') (py_lower ''went'')" by code_simp
  have q: "quick_ratio ''went'' ''go'' = 0" by code_simp
  have h: "found_items ?s = Some [?go]" "[?go] \<noteq> []"
    "listWidgetIndex_currentRow ?s = - 1 \<or> lineEditSearch_hasFocus ?s"
    "''went'' = py_lower (normalize_index_key ?e (lineEditSearch_text ?s))"
    by (simp_all add: init_state_def l)
  have eq: "selectItemRelative ?e 0 ?s =
     lw_setCurrentRow
       (case find_row (\<lambda>item. startswith (py_lower (sortkey_getter item)) ''went'') [?go] 0 of
          Some row \<Rightarrow> row
        | None \<Rightarrow> most_similar ''went'' [?go] 0 0 (- 1))
       (lw_setFocus ?s)"
    by (rule fallback_selection_eq [OF h])
  have fr: "find_row (\<lambda>item. startswith (py_lower (sortkey_getter item)) ''went'') [?go] 0 = None"
    using p by (simp add: l)
  have ms: "most_similar ''went'' [?go] 0 0 (- 1) = - 1"
    using q by (simp add: Let_def)
  have "listWidgetIndex_currentRow (selectItemRelative ?e 0 ?s) =
      listWidgetIndex_currentRow (lw_setCurrentRow (- 1) (lw_setFocus ?s))"
    by (simp only: eq fr ms option.case)
  also have "\<dots> = - 1" by (simp add: lw_setCurrentRow_fields)
  finally have r: "listWidgetIndex_currentRow (selectItemRelative ?e 0 ?s) = - 1" .
  have "trace (selectItemRelative ?e 0 ?s) = trace (lw_setCurrentRow (- 1) (lw_setFocus ?s))"
    by (simp only: eq fr ms option.case)
  also have "\<dots> = [ListSetFocus, ListSetCurrentRow (- 1)]"
    by (simp add: lw_setCurrentRow_fields lw_setFocus_fields init_state_def)
  finally have t: "trace (selectItemRelative ?e 0 ?s) = [ListSetFocus, ListSetCurrentRow (- 1)]" .
  from r t p q l show ?thesis by simp
qed

text \<open>
  How far the loop's slip reaches. With a non-empty list and either no current row
  or the focus in the search box, \<^verbatim>\<open>selectItemRelative\<close> gives the list the focus
  and selects the first item whose lower-cased sort key starts with the
  lower-cased, normalized text of the search box, when there is one; failing that,
  it selects the first of the items with the highest quick ratio between that text
  and their sort key whenever some ratio is positive. It is only when no sort key
  starts with the text and every ratio is 0 that the list is left without a
  current row.
\<close>

theorem selectItemRelative_fallback:
  assumes "found_items s = Some found" and "found \<noteq> []"
    and "listWidgetIndex_count s = length found"
    and "listWidgetIndex_currentRow s = - 1 \<or> lineEditSearch_hasFocus s"
    and "text = py_lower (normalize_index_key e (lineEditSearch_text s))"
    and "s' = selectItemRelative e rel s"
  shows "((\<exists>item\<in>set found. startswith (py_lower (sortkey_getter item)) text) \<longrightarrow>
           (\<exists>i<length found. listWidgetIndex_currentRow s' = int i
              \<and> startswith (py_lower (sortkey_getter (found ! i))) text
              \<and> (\<forall>j<i. \<not> startswith (py_lower (sortkey_getter (found ! j))) text)))
     \<and> ((\<forall>item\<in>set found. \<not> startswith (py_lower (sortkey_getter item)) text) \<and>
         (\<exists>item\<in>set found. 0 < quick_ratio text (sortkey_getter item)) \<longrightarrow>
           (\<exists>i<length found. listWidgetIndex_currentRow s' = int i
              \<and> (\<forall>j<length found. quick_ratio text (sortkey_getter (found ! j))
                     \<le> quick_ratio text (sortkey_getter (found ! i)))
              \<and> (\<forall>j<i. quick_ratio text (sortkey_getter (found ! j))
                     < quick_ratio text (sortkey_getter (found ! i)))))
     \<and> ((\<forall>item\<in>set found. \<not> startswith (py_lower (sortkey_getter item)) text) \<and>
         (\<forall>item\<in>set found. quick_ratio text (sortkey_getter item) \<le> 0) \<longrightarrow>
           listWidgetIndex_currentRow s' = - 1)
     \<and> \<not> lineEditSearch_hasFocus s'"
proof -
  define P where "P item = startswith (py_lower (sortkey_getter item)) text"
    for item :: result_item
  have s': "s' = lw_setCurrentRow
       (case find_row P found 0 of Some row \<Rightarrow> row | None \<Rightarrow> most_similar text found 0 0 (- 1))
       (lw_setFocus s)"
    unfolding assms(6) P_def by (rule fallback_selection_eq [OF assms(1,2,4,5)])
  have row: "listWidgetIndex_currentRow s' = int i"
    if "(case find_row P found 0 of Some row \<Rightarrow> row | None \<Rightarrow> most_similar text found 0 0 (- 1))
          = int i" "i < length found" for i
    using that assms(3) by (simp add: s' lw_setCurrentRow_fields lw_setFocus_fields)
  have A: "\<exists>i<length found. listWidgetIndex_currentRow s' = int i \<and> P (found ! i)
              \<and> (\<forall>j<i. \<not> P (found ! j))"
    if "\<exists>item\<in>set found. P item"
  proof -
    from that have "\<exists>r. find_row P found 0 = Some r" by (rule find_row_Some_ex)
    then obtain r where r: "find_row P found 0 = Some r" ..
    from find_row_SomeD [OF r] obtain i where
      i: "i < length found" "r = int i" "P (found ! i)" "\<forall>j<i. \<not> P (found ! j)"
      by auto
    from row [of i] r i(1,2) have "listWidgetIndex_currentRow s' = int i" by simp
    with i show ?thesis by blast
  qed
  have none: "find_row P found 0 = None" if "\<forall>item\<in>set found. \<not> P item"
    using that by (simp only: find_row_None)
  have B: "\<exists>i<length found. listWidgetIndex_currentRow s' = int i
              \<and> (\<forall>j<length found. quick_ratio text (sortkey_getter (found ! j))
                     \<le> quick_ratio text (sortkey_getter (found ! i)))
              \<and> (\<forall>j<i. quick_ratio text (sortkey_getter (found ! j))
                     < quick_ratio text (sortkey_getter (found ! i)))"
    if h: "\<forall>item\<in>set found. \<not> P item"
      "\<exists>item\<in>set found. 0 < quick_ratio text (sortkey_getter item)"
  proof -
    from most_similar_some [OF h(2), of 0 "- 1"] obtain i where
      i: "i < length found" "most_similar text found 0 0 (- 1) = 0 + int i"
         "\<forall>j<length found. quick_ratio text (sortkey_getter (found ! j))
              \<le> quick_ratio text (sortkey_getter (found ! i))"
         "\<forall>j<i. quick_ratio text (sortkey_getter (found ! j))
              < quick_ratio text (sortkey_getter (found ! i))"
      by blast
    from row [of i] none [OF h(1)] i(1,2) have "listWidgetIndex_currentRow s' = int i" by simp
    with i show ?thesis by blast
  qed
  have C: "listWidgetIndex_currentRow s' = - 1"
    if h: "\<forall>item\<in>set found. \<not> P item"
      "\<forall>item\<in>set found. quick_ratio text (sortkey_getter item) \<le> 0"
  proof -
    from h(2) have "most_similar text found 0 0 (- 1) = - 1" by (rule most_similar_none)
    with none [OF h(1)] show ?thesis
      by (simp add: s' lw_setCurrentRow_fields lw_setFocus_fields)
  qed
  have D: "\<not> lineEditSearch_hasFocus s'"
    by (simp add: s' lw_setCurrentRow_fields lw_setFocus_fields)
  from A B C D show ?thesis unfolding P_def by blast
qed

theorem selectItemRelative_fallback_witness:
  "(\<exists>i<2. listWidgetIndex_currentRow
     (selectItemRelative
        \<lparr>incremental_Searcher = Inl EnvironmentError, fts_hwdphr_async = False,
         normalize_index_key = (\<lambda>key. key)\<rparr> 0
        (init_state\<lparr>found_items := Some
            [\<lparr>text_getter = ''dog'', path_getter = ''/1'', sortkey_getter = ''dog'', prio_getter = 0\<rparr>,
             \<lparr>text_getter = ''cart'', path_getter = ''/2'', sortkey_getter = ''cart'', prio_getter = 0\<rparr>],
           listWidgetIndex_count := 2, lineEditSearch_text := ''cat''\<rparr>)) = int i
     \<and> quick_ratio ''cat'' ''dog'' \<le>
         quick_ratio ''cat''
           (sortkey_getter
             ([\<lparr>text_getter = ''dog'', path_getter = ''/1'', sortkey_getter = ''dog'', prio_getter = 0\<rparr>,
               \<lparr>text_getter = ''cart'', path_getter = ''/2'', sortkey_getter = ''cart'', prio_getter = 0\<rparr>]
              ! i)))"
proof -
  let ?e = "\<lparr>incremental_Searcher = Inl EnvironmentError, fts_hwdphr_async = False,
         normalize_index_key = (\<lambda>key. key)\<rparr>"
  let ?dog = "\<lparr>text_getter = ''dog'', path_getter = ''/1'', sortkey_getter = ''dog'', prio_getter = 0\<rparr>"
  let ?cart = "\<lparr>text_getter = ''cart'', path_getter = ''/2'', sortkey_getter = ''cart'', prio_getter = 0\<rparr>"
  let ?s = "init_state\<lparr>found_items := Some [?dog, ?cart],
           listWidgetIndex_count := 2, lineEditSearch_text := ''cat''\<rparr>"
  have l: "py_lower ''cat'' = ''cat''" by code_simp
  have p: "\<not> startswith (py_lower ''dog'') ''cat''" "\<not> startswith (py_lower ''cart'') ''cat''"
    by code_simp+
  have q: "0 < quick_ratio ''cat'' ''cart''" by code_simp
  have h: "found_items ?s = Some [?dog, ?cart]" "[?dog, ?cart] \<noteq> []"
    "listWidgetIndex_count ?s = length [?dog, ?cart]"
    "listWidgetIndex_currentRow ?s = - 1 \<or> lineEditSearch_hasFocus ?s"
    "''cat'' = py_lower (normalize_index_key ?e (lineEditSearch_text ?s))"
    by (simp_all add: init_state_def l)
  from selectItemRelative_fallback [OF h refl, of 0] p q
  obtain i where i: "i < 2" "listWidgetIndex_currentRow (selectItemRelative ?e 0 ?s) = int i"
    "\<forall>j<2. quick_ratio ''cat'' (sortkey_getter ([?dog, ?cart] ! j))
        \<le> quick_ratio ''cat'' (sortkey_getter ([?dog, ?cart] ! i))"
    by auto
  have "quick_ratio ''cat'' ''dog'' \<le> quick_ratio ''cat'' (sortkey_getter ([?dog, ?cart] ! i))"
    using i(3) [rule_format, of 0] by simp
  with i(1,2) show ?thesis by blast
qed

end
